(* ===== verification/Prelude.thy ===== *)
theory Prelude
  imports Main "HOL-Library.Word" "HOL-Library.Monad_Syntax" "HOL-Library.Code_Target_Nat"
begin

text \<open>
  Shared vocabulary of the development: the machine integers of the C sources, memory as a
  list of bytes with bounds-checked reads and writes, the little-endian layout of integers,
  and the byte form of C strings.

  A C execution that has no defined result (a read or write outside the memory at hand, a
  dereferenced NULL pointer, a loop that never ends) is the value \<open>None\<close> of an
  \<open>option\<close>; \<open>Some\<close> carries what the code returns. Error codes and messages of the
  program are ordinary values inside the \<open>Some\<close>.
\<close>

unbundle bit_operations_syntax

type_synonym u8 = "8 word"
type_synonym u16 = "16 word"
type_synonym u32 = "32 word"
type_synonym u64 = "64 word"

type_synonym memory = "u8 list"

named_theorems mem_simps \<open>rewrite rules for reads of memory\<close>
named_theorems le_simps \<open>rewrite rules for the little-endian layout of integers\<close>

section \<open>Memory\<close>

definition mem_read :: "'a list \<Rightarrow> nat \<Rightarrow> nat \<Rightarrow> 'a list option" where
  "mem_read m off n = (if off + n \<le> length m then Some (take n (drop off m)) else None)"

definition mem_write :: "'a list \<Rightarrow> nat \<Rightarrow> 'a list \<Rightarrow> 'a list option" where
  "mem_write m off xs =
     (if off + length xs \<le> length m
      then Some (take off m @ xs @ drop (off + length xs) m) else None)"

lemma mem_read_eq_Some:
  "mem_read m off n = Some x \<longleftrightarrow> off + n \<le> length m \<and> x = take n (drop off m)"
  by (auto simp: mem_read_def)

lemma mem_read_length: "mem_read m off n = Some x \<Longrightarrow> length x = n"
  by (auto simp: mem_read_eq_Some)

lemma mem_read_bound: "mem_read m off n = Some x \<Longrightarrow> off + n \<le> length m"
  by (simp add: mem_read_eq_Some)

lemma mem_read_defined: "off + n \<le> length m \<Longrightarrow> \<exists>x. mem_read m off n = Some x"
  by (simp add: mem_read_def)

lemma mem_read_append [mem_simps]:
  "mem_read m off n = Some x \<Longrightarrow> mem_read (m @ r) off n = Some x"
  by (auto simp: mem_read_eq_Some)

lemma mem_read_end [mem_simps]:
  "n = length xs \<Longrightarrow> mem_read (m @ xs) (length m) n = Some xs"
  by (simp add: mem_read_eq_Some)

lemma mem_read_mid:
  "off = length m \<Longrightarrow> n = length xs \<Longrightarrow> mem_read (m @ xs @ r) off n = Some xs"
  by (simp add: mem_read_eq_Some)

text \<open>A part of a known stretch of memory is known.\<close>

lemma mem_read_part:
  assumes "mem_read m off n = Some x" and "i + k \<le> n"
  shows "mem_read m (off + i) k = Some (take k (drop i x))"
  using assms by (auto simp: mem_read_eq_Some take_drop drop_drop add.commute add.left_commute min_def)

lemma mem_read_concat:
  assumes "mem_read m off k = Some x" and "mem_read m (off + k) n = Some y"
  shows "mem_read m off (k + n) = Some (x @ y)"
  using assms by (auto simp: mem_read_eq_Some take_add drop_drop add.commute)

lemma mem_write_eq_Some:
  "mem_write m off xs = Some m' \<longleftrightarrow>
     off + length xs \<le> length m \<and> m' = take off m @ xs @ drop (off + length xs) m"
  by (auto simp: mem_write_def)

lemma mem_write_length: "mem_write m off xs = Some m' \<Longrightarrow> length m' = length m"
  by (auto simp: mem_write_eq_Some)

lemma mem_write_defined: "off + length xs \<le> length m \<Longrightarrow> \<exists>m'. mem_write m off xs = Some m'"
  by (simp add: mem_write_def)

lemma mem_read_write_same:
  assumes "mem_write m off xs = Some m'" and "n = length xs"
  shows "mem_read m' off n = Some xs"
  using assms by (auto simp: mem_write_eq_Some mem_read_eq_Some)

lemma mem_read_write_after:
  assumes "mem_write m w xs = Some m'" and "w + length xs \<le> off"
  shows "mem_read m' off n = mem_read m off n"
proof -
  from assms(1) have m': "m' = take w m @ xs @ drop (w + length xs) m"
    and le: "w + length xs \<le> length m" by (auto simp: mem_write_eq_Some)
  from assms(2) obtain d where d: "off = w + length xs + d" using le_Suc_ex by blast
  have "drop off m' = drop off m"
    using le by (simp add: m' d drop_append add.commute add.left_commute)
  moreover have "length m' = length m" using assms(1) by (rule mem_write_length)
  ultimately show ?thesis by (simp add: mem_read_def)
qed

lemma mem_read_write_before:
  assumes "mem_write m w xs = Some m'" and "off + n \<le> w"
  shows "mem_read m' off n = mem_read m off n"
proof -
  from assms(1) have m': "m' = take w m @ xs @ drop (w + length xs) m"
    and le: "w + length xs \<le> length m" by (auto simp: mem_write_eq_Some)
  have "take n (drop off m') = take n (drop off m)"
  proof -
    have "take (off + n) m' = take (off + n) m"
      using assms(2) le by (simp add: m' min_def)
    then have "drop off (take (off + n) m') = drop off (take (off + n) m)" by simp
    then show ?thesis by (simp add: drop_take)
  qed
  moreover have "length m' = length m" using assms(1) by (rule mem_write_length)
  ultimately show ?thesis by (simp add: mem_read_def)
qed

lemmas mem_read_write = mem_read_write_same mem_read_write_after mem_read_write_before

section \<open>Little-endian integers\<close>

lemma unat_lt2p: "unat (w :: 'a :: len word) < 2 ^ LENGTH('a)"
  by (rule unsigned_less)

fun le_encode :: "nat \<Rightarrow> nat \<Rightarrow> u8 list" where
  "le_encode 0 v = []"
| "le_encode (Suc n) v = of_nat v # le_encode n (v div 256)"

fun le_decode :: "u8 list \<Rightarrow> nat" where
  "le_decode [] = 0"
| "le_decode (b # bs) = unat b + 256 * le_decode bs"

lemma length_le_encode [simp]: "length (le_encode n v) = n"
  by (induction n arbitrary: v) auto

lemma le_decode_encode: "le_decode (le_encode n v) = v mod 256 ^ n"
proof (induction n arbitrary: v)
  case 0
  then show ?case by simp
next
  case (Suc n)
  have "v mod 256 + 256 * (v div 256 mod 256 ^ n) = v mod (256 * 256 ^ n)"
    by (simp add: mod_mult2_eq)
  with Suc show ?case by (simp add: unat_of_nat)
qed

lemma le_decode_bound: "le_decode bs < 256 ^ length bs"
proof (induction bs)
  case Nil
  then show ?case by simp
next
  case (Cons b bs)
  have "unat b < 256" using unat_lt2p [of b] by simp
  with Cons show ?case by simp
qed

lemma le_encode_decode: "le_encode (length bs) (le_decode bs) = bs"
proof (induction bs)
  case Nil
  then show ?case by simp
next
  case (Cons b bs)
  have b: "unat b < 256" using unat_lt2p [of b] by simp
  have "word_of_nat (unat b + 256 * le_decode bs) = b"
  proof -
    have "(256 :: u8) = 0" by simp
    then have "(256 :: u8) * of_nat (le_decode bs) = 0" by (simp only: mult_zero_left)
    then show ?thesis by simp
  qed
  moreover have "(unat b + 256 * le_decode bs) div 256 = le_decode bs" using b by simp
  ultimately show ?case using Cons by simp
qed

definition put16 :: "u16 \<Rightarrow> u8 list" where "put16 w = le_encode 2 (unat w)"
definition put32 :: "u32 \<Rightarrow> u8 list" where "put32 w = le_encode 4 (unat w)"
definition put64 :: "u64 \<Rightarrow> u8 list" where "put64 w = le_encode 8 (unat w)"

definition get16 :: "u8 list \<Rightarrow> u16" where "get16 bs = of_nat (le_decode bs)"
definition get32 :: "u8 list \<Rightarrow> u32" where "get32 bs = of_nat (le_decode bs)"
definition get64 :: "u8 list \<Rightarrow> u64" where "get64 bs = of_nat (le_decode bs)"

lemma length_put [simp]:
  "length (put16 a) = 2" "length (put32 b) = 4" "length (put64 c) = 8"
  by (simp_all add: put16_def put32_def put64_def)

lemma get16_put16 [simp]: "get16 (put16 w) = w"
  using unat_lt2p [of w] by (simp add: get16_def put16_def le_decode_encode)

lemma get32_put32 [simp]: "get32 (put32 w) = w"
  using unat_lt2p [of w] by (simp add: get32_def put32_def le_decode_encode)

lemma get64_put64 [simp]: "get64 (put64 w) = w"
  using unat_lt2p [of w] by (simp add: get64_def put64_def le_decode_encode)

definition zeros :: "nat \<Rightarrow> u8 list" where "zeros n = replicate n 0"

lemma length_zeros [simp]: "length (zeros n) = n"
  by (simp add: zeros_def)

section \<open>Words and natural numbers\<close>

lemma unat_u64_bound: "unat (w :: u64) < 2 ^ 64"
  using unat_lt2p [of w] by simp

lemma unat_u32_bound: "unat (w :: u32) < 2 ^ 32"
  using unat_lt2p [of w] by simp

lemma unat_of_nat_u64: "n < 2 ^ 64 \<Longrightarrow> unat (of_nat n :: u64) = n"
  by (simp add: unat_of_nat take_bit_nat_eq_self)

lemma unat_of_nat_u32: "n < 2 ^ 32 \<Longrightarrow> unat (of_nat n :: u32) = n"
  by (simp add: unat_of_nat take_bit_nat_eq_self)

lemma unat_add_u64:
  "unat a + unat b < 2 ^ 64 \<Longrightarrow> unat (a + b) = unat a + unat (b :: u64)"
  by (simp add: unat_word_ariths)

lemma unat_ucast_u32_u64 [simp]: "unat (ucast (w :: u32) :: u64) = unat w"
  using unat_lt2p [of w] by (simp add: unsigned_ucast_eq take_bit_nat_eq_self)

lemma sint_of_nat_u32: "n < 2 ^ 31 \<Longrightarrow> sint (of_nat n :: u32) = int n"
  by (simp add: signed_of_nat signed_take_bit_int_eq_self)

text \<open>A recorded, non-empty block is found again from the resource's offset.\<close>

lemma unat_ucast_u64_u32: "unat w < 2 ^ 32 \<Longrightarrow> unat (ucast (w :: u64) :: u32) = unat w"
  by (simp add: unsigned_ucast_eq take_bit_nat_eq_self)

section \<open>Strings as bytes\<close>

text \<open>
  A C string of the sources is a HOL \<open>string\<close> without the character NUL; in memory it is
  its bytes and a terminating zero.
\<close>

definition bytes_of :: "string \<Rightarrow> u8 list" where
  "bytes_of s = map of_char s"

definition no_nul :: "string \<Rightarrow> bool" where
  "no_nul s = list_all (\<lambda>c. (of_char c :: u8) \<noteq> 0) s"

definition cstr :: "string \<Rightarrow> u8 list" where
  "cstr s = bytes_of s @ [0]"

lemma length_bytes_of [simp]: "length (bytes_of s) = length s"
  by (simp add: bytes_of_def)

lemma length_cstr [simp]: "length (cstr s) = Suc (length s)"
  by (simp add: cstr_def)

lemma of_char_u8_inject: "(of_char c :: u8) = of_char d \<longleftrightarrow> c = d"
proof
  assume "(of_char c :: u8) = of_char d"
  then have "unat (of_char c :: u8) = unat (of_char d :: u8)" by simp
  moreover have "unat (of_char x :: u8) = (of_char x :: nat)" for x
  proof -
    have "(of_char x :: u8) = of_nat (of_char x)" by (cases x) (simp add: of_char_def)
    moreover have "(of_char x :: nat) < 256" by simp
    ultimately show ?thesis by (simp add: unat_of_nat take_bit_nat_eq_self)
  qed
  ultimately show "c = d" by simp
qed simp

lemma bytes_of_inject: "bytes_of s = bytes_of t \<longleftrightarrow> s = t"
  by (auto simp: bytes_of_def of_char_u8_inject inj_map_eq_map inj_def)

lemma no_nul_Cons [simp]: "no_nul (c # s) \<longleftrightarrow> (of_char c :: u8) \<noteq> 0 \<and> no_nul s"
  by (simp add: no_nul_def)

lemma no_nul_Nil [simp]: "no_nul []"
  by (simp add: no_nul_def)

lemma no_nul_bytes: "no_nul s \<Longrightarrow> 0 \<notin> set (bytes_of s)"
  by (induction s) (auto simp: bytes_of_def)

end
