(* ===== verification/C_Text.thy ===== *)
theory C_Text
  imports Prelude
begin

text \<open>
  The part of the C library's text functions that the sources call: character classes in the C
  locale, case-insensitive comparison, \<open>strrchr\<close>, \<open>strtol\<close>, \<open>dirname\<close>, decimal output and the
  truncation of \<open>snprintf\<close>. A C string is a HOL string without the character NUL.
\<close>

named_theorems text_simps \<open>evaluation of the text functions\<close>

section \<open>Characters\<close>

definition chr_code :: "char \<Rightarrow> nat" where
  "chr_code c = of_char c"

definition isdigit :: "char \<Rightarrow> bool" where
  "isdigit c \<longleftrightarrow> 48 \<le> chr_code c \<and> chr_code c \<le> 57"

definition isspace :: "char \<Rightarrow> bool" where
  "isspace c \<longleftrightarrow> chr_code c = 32 \<or> 9 \<le> chr_code c \<and> chr_code c \<le> 13"

definition tolower :: "char \<Rightarrow> char" where
  "tolower c = (if 65 \<le> chr_code c \<and> chr_code c \<le> 90 then char_of (chr_code c + 32) else c)"

definition strcasecmp_eq :: "string \<Rightarrow> string \<Rightarrow> bool" where
  "strcasecmp_eq s t \<longleftrightarrow> map tolower s = map tolower t"

text \<open>The C string that starts at a buffer of characters: everything before the first NUL.\<close>

definition c_string :: "string \<Rightarrow> string" where
  "c_string s = takeWhile (\<lambda>c. chr_code c \<noteq> 0) s"

definition strncmp_eq :: "string \<Rightarrow> string \<Rightarrow> nat \<Rightarrow> bool" where
  "strncmp_eq s t n \<longleftrightarrow> take n (c_string s) = take n (c_string t)"

text \<open>\<open>strrchr\<close>: the suffix that starts at the last occurrence.\<close>

fun strrchr :: "string \<Rightarrow> char \<Rightarrow> string option" where
  "strrchr [] c = None"
| "strrchr (x # s) c = (case strrchr s c of
      Some t \<Rightarrow> Some t
    | None \<Rightarrow> if x = c then Some (x # s) else None)"

definition snprintf :: "nat \<Rightarrow> string \<Rightarrow> string" where
  "snprintf room s = take (room - 1) s"

text \<open>
  \<open>dirname\<close>: trailing slashes, the last component and the slashes before it are removed; two
  leading slashes stay two.
\<close>

definition is_slash :: "char \<Rightarrow> bool" where
  "is_slash c \<longleftrightarrow> c = CHR ''/''"

definition dirname :: "string \<Rightarrow> string" where
  "dirname path =
     (let above = dropWhile (Not \<circ> is_slash) (dropWhile is_slash (rev path));
          dir = rev (dropWhile is_slash above);
          slashes = takeWhile is_slash path
      in if dir \<noteq> [] then dir
         else if slashes = [] then ''.''
         else if length slashes = 2 then ''//'' else ''/'')"

section \<open>Decimal numbers\<close>

definition digit :: "nat \<Rightarrow> char" where
  "digit d = char_of (48 + d)"

fun decimal :: "nat \<Rightarrow> string" where
  "decimal n = (if n < 10 then [digit n] else decimal (n div 10) @ [digit (n mod 10)])"

declare decimal.simps [simp del]

definition digit_value :: "char \<Rightarrow> nat" where
  "digit_value c = chr_code c - 48"

definition digits_value :: "string \<Rightarrow> nat" where
  "digits_value s = foldl (\<lambda>v c. 10 * v + digit_value c) 0 s"

definition LONG_MAX :: int where "LONG_MAX = 2 ^ 63 - 1"
definition LONG_MIN :: int where "LONG_MIN = - (2 ^ 63)"

text \<open>
  \<open>strtol(s, &end, 10)\<close>: the value, clamped to the range of \<open>long\<close>, and the string at \<open>end\<close>; when
  there is no digit the value is 0 and \<open>end\<close> is the start.
\<close>

definition strtol10 :: "string \<Rightarrow> int \<times> string" where
  "strtol10 s =
     (let t = dropWhile isspace s;
          neg = (case t of c # _ \<Rightarrow> c = CHR ''-'' | [] \<Rightarrow> False);
          d = (case t of c # r \<Rightarrow> if c = CHR ''-'' \<or> c = CHR ''+'' then r else t | [] \<Rightarrow> t);
          v = int (digits_value (takeWhile isdigit d))
      in if takeWhile isdigit d = [] then (0, s)
         else (max LONG_MIN (min LONG_MAX (if neg then - v else v)), dropWhile isdigit d))"

definition pad_right :: "nat \<Rightarrow> string \<Rightarrow> string" where
  "pad_right n s = s @ replicate (n - length s) CHR '' ''"

definition pad_left :: "nat \<Rightarrow> string \<Rightarrow> string" where
  "pad_left n s = replicate (n - length s) CHR '' '' @ s"

section \<open>Facts\<close>

lemma chr_code_digit [text_simps]: "d < 10 \<Longrightarrow> chr_code (digit d) = 48 + d"
  by (simp add: chr_code_def digit_def)

lemma digit_facts [text_simps]:
  assumes "d < 10"
  shows "isdigit (digit d)" "\<not> isspace (digit d)" "digit_value (digit d) = d"
    "digit d \<noteq> CHR ''-''" "digit d \<noteq> CHR ''+''"
proof -
  have c: "chr_code (digit d) = 48 + d" using assms by (rule chr_code_digit)
  then show "isdigit (digit d)" "\<not> isspace (digit d)" "digit_value (digit d) = d"
    using assms by (simp_all add: isdigit_def isspace_def digit_value_def)
  have "chr_code (CHR ''-'') = 45" "chr_code (CHR ''+'') = 43" by (simp_all add: chr_code_def)
  with c show "digit d \<noteq> CHR ''-''" "digit d \<noteq> CHR ''+''" by auto
qed

lemma decimal_not_Nil [simp]: "decimal n \<noteq> []"
  by (subst decimal.simps) simp

lemma decimal_digits: "list_all isdigit (decimal n)"
proof (induction n rule: decimal.induct)
  case (1 n)
  then show ?case by (subst decimal.simps) (simp add: digit_facts)
qed

lemma digits_value_snoc: "digits_value (s @ [c]) = 10 * digits_value s + digit_value c"
  by (simp add: digits_value_def)

lemma digits_value_decimal: "digits_value (decimal n) = n"
proof (induction n rule: decimal.induct)
  case (1 n)
  show ?case
  proof (cases "n < 10")
    case True
    then show ?thesis by (subst decimal.simps) (simp add: digits_value_def digit_facts)
  next
    case False
    with 1 have "digits_value (decimal (n div 10)) = n div 10" by simp
    then show ?thesis using False by (subst decimal.simps) (simp add: digits_value_snoc digit_facts)
  qed
qed

lemma takeWhile_list_all: "list_all P s \<Longrightarrow> takeWhile P s = s \<and> dropWhile P s = []"
  by (induction s) simp_all

lemma isdigit_no_space: "isdigit c \<Longrightarrow> \<not> isspace c \<and> c \<noteq> CHR ''-'' \<and> c \<noteq> CHR ''+''"
  by (auto simp: isdigit_def isspace_def chr_code_def)

lemma strtol10_digits:
  assumes "list_all isdigit s" and "s \<noteq> []"
  shows "strtol10 s = (min LONG_MAX (int (digits_value s)), [])"
proof -
  obtain c t where s: "s = c # t" using assms(2) by (cases s) auto
  with assms(1) have c: "isdigit c" by simp
  note t = takeWhile_list_all [OF assms(1)]
  have "LONG_MIN \<le> min LONG_MAX (int (digits_value s))" by (simp add: LONG_MIN_def LONG_MAX_def)
  then show ?thesis using isdigit_no_space [OF c] t s by (simp add: strtol10_def Let_def)
qed

lemma strtol10_decimal: "strtol10 (decimal n) = (min LONG_MAX (int n), [])"
  using strtol10_digits [OF decimal_digits decimal_not_Nil] by (simp add: digits_value_decimal)

lemma unat_of_char [simp]: "unat (of_char c :: u8) = chr_code c"
proof -
  have "(of_char c :: u8) = of_nat (of_char c)" by (cases c) (simp add: of_char_def)
  moreover have "(of_char c :: nat) < 256" by simp
  ultimately show ?thesis by (simp add: chr_code_def unat_of_nat take_bit_nat_eq_self)
qed

lemma of_char_0_iff: "(of_char c :: u8) = 0 \<longleftrightarrow> chr_code c = 0"
  by (metis unat_of_char unat_eq_zero)

lemma c_string_id: "no_nul s \<Longrightarrow> c_string s = s"
  by (induction s) (auto simp: c_string_def of_char_0_iff)

lemma no_nul_c_string [simp]: "no_nul (c_string s)"
  by (induction s) (auto simp: c_string_def of_char_0_iff)

lemma strcasecmp_eq_refl [simp]: "strcasecmp_eq s s"
  by (simp add: strcasecmp_eq_def)

lemma tolower_tolower [simp]: "tolower (tolower c) = tolower c"
proof (cases "65 \<le> chr_code c \<and> chr_code c \<le> 90")
  case True
  then have "chr_code (char_of (chr_code c + 32)) = chr_code c + 32" by (simp add: chr_code_def)
  with True show ?thesis by (simp add: tolower_def)
next
  case False
  then have "tolower c = c" by (auto simp: tolower_def)
  then show ?thesis by simp
qed

lemma strcasecmp_eq_lower [simp]: "strcasecmp_eq (map tolower s) t = strcasecmp_eq s t"
  by (simp add: strcasecmp_eq_def o_def)

lemma strrchr_append: "strrchr t c = None \<Longrightarrow> strrchr (s @ c # t) c = Some (c # t)"
  by (induction s) simp_all

lemma strrchr_None: "strrchr s c = None \<longleftrightarrow> c \<notin> set s"
  by (induction s) (auto split: option.splits)

lemma strrchr_Some:
  "strrchr s c = Some t \<Longrightarrow> \<exists>p. s = p @ t \<and> t = c # tl t \<and> c \<notin> set (tl t)"
proof (induction s arbitrary: t)
  case Nil
  then show ?case by simp
next
  case (Cons x s)
  show ?case
  proof (cases "strrchr s c")
    case None
    then have "t = x # s" "x = c" using Cons.prems by (auto split: if_splits)
    with None show ?thesis by (simp add: strrchr_None)
  next
    case (Some u)
    with Cons.prems have "t = u" by simp
    with Cons.IH [OF Some] obtain p where "s = p @ t \<and> t = c # tl t \<and> c \<notin> set (tl t)" by auto
    then have "x # s = (x # p) @ t \<and> t = c # tl t \<and> c \<notin> set (tl t)" by simp
    then show ?thesis by blast
  qed
qed

end
