(* ===== verification/Codec.thy ===== *)
theory Codec
  imports Prelude
begin

text \<open>
  The interface of a C struct in memory: a fixed number of bytes, an encoding of its fields
  and the decoding that \<open>memcpy\<close> into a struct variable performs. Arrays of structs are read
  back element by element, wherever they lie in memory.
\<close>

definition field :: "u8 list \<Rightarrow> nat \<Rightarrow> nat \<Rightarrow> u8 list" where
  "field bs off n = take n (drop off bs)"

lemma field_skip: "length xs \<le> off \<Longrightarrow> field (xs @ ys) off n = field ys (off - length xs) n"
  by (simp add: field_def)

lemma field_here: "length xs = n \<Longrightarrow> field (xs @ ys) 0 n = xs"
  by (simp add: field_def)

lemma field_last: "length xs = n \<Longrightarrow> field xs 0 n = xs"
  by (simp add: field_def)

lemma length_field [simp]: "off + n \<le> length bs \<Longrightarrow> length (field bs off n) = n"
  by (simp add: field_def)

lemmas field_simps_struct = field_skip field_here field_last

locale codec =
  fixes enc :: "'a \<Rightarrow> u8 list"
    and dec :: "u8 list \<Rightarrow> 'a"
    and ok :: "'a \<Rightarrow> bool"
    and size_of :: nat
  assumes enc_length: "ok x \<Longrightarrow> length (enc x) = size_of"
    and dec_enc: "ok x \<Longrightarrow> dec (enc x) = x"
begin

definition enc_array :: "'a list \<Rightarrow> u8 list" where
  "enc_array xs = concat (map enc xs)"

lemma enc_array_Cons: "enc_array (x # xs) = enc x @ enc_array xs"
  by (simp add: enc_array_def)

lemma enc_array_length: "\<forall>x\<in>set xs. ok x \<Longrightarrow> length (enc_array xs) = size_of * length xs"
  by (induction xs) (auto simp: enc_array_def enc_length)

lemma enc_inject: "ok x \<Longrightarrow> ok y \<Longrightarrow> enc x = enc y \<Longrightarrow> x = y"
  by (metis dec_enc)

lemma field_enc_array:
  assumes "\<forall>x\<in>set xs. ok x" and "i < length xs"
  shows "field (enc_array xs) (size_of * i) size_of = enc (xs ! i)"
  using assms
proof (induction xs arbitrary: i)
  case Nil
  then show ?case by simp
next
  case (Cons x xs)
  then show ?case
    by (cases i) (auto simp: enc_array_Cons field_def enc_length)
qed

lemma dec_enc_array:
  assumes "\<forall>x\<in>set xs. ok x"
  shows "map (\<lambda>i. dec (field (enc_array xs) (size_of * i) size_of)) [0..<length xs] = xs"
  using assms by (intro nth_equalityI) (auto simp: field_enc_array dec_enc)

lemma mem_read_array:
  assumes "\<forall>x\<in>set xs. ok x" and "i < length xs"
    and read: "mem_read m off (size_of * length xs) = Some (enc_array xs)"
  shows "mem_read m (off + size_of * i) size_of = Some (enc (xs ! i))"
proof -
  have "size_of * i + size_of \<le> size_of * length xs"
    using assms(2) by (metis Suc_leI add.commute mult_Suc_right mult_le_mono2)
  from mem_read_part [OF read this] field_enc_array [OF assms(1,2)] show ?thesis
    by (simp add: field_def)
qed

end

interpretation u64_codec: codec put64 get64 "\<lambda>_. True" 8
  by unfold_locales simp_all

end
