(* ===== verification/Erf_Format.thy ===== *)
theory Erf_Format
  imports Codec
begin

text \<open>
  \<open>include/elfr/erf_format.h\<close>: the on-disk structures of an ERF container as records, and
  the x86-64 layout of each struct in memory (little-endian fields at their offsets, the four
  padding bytes the compiler puts before \<open>directory_offset\<close>).
\<close>

section \<open>Constants\<close>

definition ERF_MAGIC :: "u8 list" where
  "ERF_MAGIC = bytes_of ''ELFR''"

definition ERF_VERSION_MAJOR :: u16 where "ERF_VERSION_MAJOR = 1"
definition ERF_VERSION_MINOR :: u16 where "ERF_VERSION_MINOR = 0"

definition ERF_HFLAG_LOCALIZED :: u32 where "ERF_HFLAG_LOCALIZED = 1"
definition ERF_HFLAG_METADATA_PRESENT :: u32 where "ERF_HFLAG_METADATA_PRESENT = 2"
definition ERF_HFLAG_HASH_TABLE_PRESENT :: u32 where "ERF_HFLAG_HASH_TABLE_PRESENT = 4"

datatype erf_resource_flag =
  ERF_RFLAG_COMPRESSED | ERF_RFLAG_ENCRYPTED | ERF_RFLAG_READ_ONLY | ERF_RFLAG_EXECUTABLE
  | ERF_RFLAG_OPTIONAL

fun rflag_bit :: "erf_resource_flag \<Rightarrow> u32" where
  "rflag_bit ERF_RFLAG_COMPRESSED = 1"
| "rflag_bit ERF_RFLAG_ENCRYPTED = 2"
| "rflag_bit ERF_RFLAG_READ_ONLY = 4"
| "rflag_bit ERF_RFLAG_EXECUTABLE = 8"
| "rflag_bit ERF_RFLAG_OPTIONAL = 16"

datatype erf_resource_type =
  ERF_TYPE_BINARY | ERF_TYPE_STRING | ERF_TYPE_JSON | ERF_TYPE_XML | ERF_TYPE_YAML
  | ERF_TYPE_PNG | ERF_TYPE_JPEG | ERF_TYPE_SVG | ERF_TYPE_GIF | ERF_TYPE_ICON | ERF_TYPE_FONT
  | ERF_TYPE_AUDIO | ERF_TYPE_VIDEO | ERF_TYPE_SHADER | ERF_TYPE_CERTIFICATE

fun type_code :: "erf_resource_type \<Rightarrow> u32" where
  "type_code ERF_TYPE_BINARY = 0"
| "type_code ERF_TYPE_STRING = 1"
| "type_code ERF_TYPE_JSON = 2"
| "type_code ERF_TYPE_XML = 3"
| "type_code ERF_TYPE_YAML = 4"
| "type_code ERF_TYPE_PNG = 5"
| "type_code ERF_TYPE_JPEG = 6"
| "type_code ERF_TYPE_SVG = 7"
| "type_code ERF_TYPE_GIF = 8"
| "type_code ERF_TYPE_ICON = 9"
| "type_code ERF_TYPE_FONT = 10"
| "type_code ERF_TYPE_AUDIO = 11"
| "type_code ERF_TYPE_VIDEO = 12"
| "type_code ERF_TYPE_SHADER = 13"
| "type_code ERF_TYPE_CERTIFICATE = 14"

text \<open>The types can be enumerated, so that facts about every type are decided by evaluation.\<close>

instantiation erf_resource_type :: enum
begin

definition enum_erf_resource_type :: "erf_resource_type list" where
  "enum_erf_resource_type =
     [ERF_TYPE_BINARY, ERF_TYPE_STRING, ERF_TYPE_JSON, ERF_TYPE_XML, ERF_TYPE_YAML, ERF_TYPE_PNG,
      ERF_TYPE_JPEG, ERF_TYPE_SVG, ERF_TYPE_GIF, ERF_TYPE_ICON, ERF_TYPE_FONT, ERF_TYPE_AUDIO,
      ERF_TYPE_VIDEO, ERF_TYPE_SHADER, ERF_TYPE_CERTIFICATE]"

definition enum_all_erf_resource_type :: "(erf_resource_type \<Rightarrow> bool) \<Rightarrow> bool" where
  "enum_all_erf_resource_type P = list_all P enum_class.enum"

definition enum_ex_erf_resource_type :: "(erf_resource_type \<Rightarrow> bool) \<Rightarrow> bool" where
  "enum_ex_erf_resource_type P = list_ex P enum_class.enum"

instance
proof
  show "distinct (enum_class.enum :: erf_resource_type list)" by (simp add: enum_erf_resource_type_def)
  have "t \<in> set (enum_class.enum :: erf_resource_type list)" for t
    by (cases t) (simp_all add: enum_erf_resource_type_def)
  then show "UNIV = set (enum_class.enum :: erf_resource_type list)" by auto
  then show "enum_class.enum_all P = Ball UNIV P" "enum_class.enum_ex P = Bex UNIV P"
    for P :: "erf_resource_type \<Rightarrow> bool"
    by (simp_all add: enum_all_erf_resource_type_def enum_ex_erf_resource_type_def list_all_iff list_ex_iff)
qed

end

lemma type_code_enum: "\<forall>n\<in>set [0..<15]. unat (type_code (enum_class.enum ! n)) = n"
  by code_simp

lemma type_code_range: "range type_code = {i. unat i < 15}"
proof
  have "\<forall>t. unat (type_code t) < 15" by code_simp
  then show "range type_code \<subseteq> {i. unat i < 15}" by auto
  show "{i. unat i < 15} \<subseteq> range type_code"
  proof
    fix i :: u32
    assume "i \<in> {i. unat i < 15}"
    then have "unat (type_code (enum_class.enum ! unat i)) = unat i" using type_code_enum by simp
    then have "type_code (enum_class.enum ! unat i) = i" by (simp add: word_unat_eq_iff)
    then show "i \<in> range type_code" by (metis rangeI)
  qed
qed

datatype erf_compression =
  ERF_COMPRESSION_NONE | ERF_COMPRESSION_DEFLATE | ERF_COMPRESSION_ZSTD | ERF_COMPRESSION_LZ4
  | ERF_COMPRESSION_BROTLI | ERF_COMPRESSION_XZ

fun compression_code :: "erf_compression \<Rightarrow> u32" where
  "compression_code ERF_COMPRESSION_NONE = 0"
| "compression_code ERF_COMPRESSION_DEFLATE = 1"
| "compression_code ERF_COMPRESSION_ZSTD = 2"
| "compression_code ERF_COMPRESSION_LZ4 = 3"
| "compression_code ERF_COMPRESSION_BROTLI = 4"
| "compression_code ERF_COMPRESSION_XZ = 5"

definition ERF_LANGUAGE_NEUTRAL :: u32 where "ERF_LANGUAGE_NEUTRAL = 0"

definition ERF_HASH_EMPTY :: u32 where "ERF_HASH_EMPTY = 0xFFFFFFFF"

section \<open>Structures\<close>

record ERFHeader =
  h_magic :: "u8 list"
  h_version_major :: u16
  h_version_minor :: u16
  h_header_size :: u32
  h_flags :: u32
  h_resource_count :: u32
  h_directory_entry_size :: u32
  h_reserved0 :: u32
  h_directory_offset :: u64
  h_string_offset :: u64
  h_metadata_offset :: u64
  h_hash_table_offset :: u64
  h_signature_offset :: u64
  h_data_offset :: u64
  h_total_size :: u64
  h_checksum :: u64
  h_reserved :: "u64 list"

record ERFDirectoryEntry =
  d_id :: u32
  d_type :: u32
  d_language :: u32
  d_flags :: u32
  d_name_offset :: u32
  d_reserved0 :: u32
  d_data_offset :: u64
  d_data_size :: u64
  d_original_size :: u64
  d_metadata_offset :: u64
  d_hash :: u64
  d_checksum :: u64
  d_timestamp :: u64
  d_reserved :: "u64 list"

record ERFHashTableHeader =
  t_bucket_count :: u32
  t_reserved0 :: u32

record ERFHashBucket =
  b_hash :: u64
  b_directory_index :: u32
  b_reserved0 :: u32

definition sizeof_ERFHeader :: nat where "sizeof_ERFHeader = 160"
definition sizeof_ERFDirectoryEntry :: nat where "sizeof_ERFDirectoryEntry = 128"
definition sizeof_ERFHashTableHeader :: nat where "sizeof_ERFHashTableHeader = 8"
definition sizeof_ERFHashBucket :: nat where "sizeof_ERFHashBucket = 16"

lemmas sizeof_defs = sizeof_ERFHeader_def sizeof_ERFDirectoryEntry_def
  sizeof_ERFHashTableHeader_def sizeof_ERFHashBucket_def

section \<open>Layout in memory\<close>

definition put_header :: "ERFHeader \<Rightarrow> u8 list" where
  "put_header h =
     h_magic h @ put16 (h_version_major h) @ put16 (h_version_minor h) @ put32 (h_header_size h)
     @ put32 (h_flags h) @ put32 (h_resource_count h) @ put32 (h_directory_entry_size h)
     @ put32 (h_reserved0 h) @ zeros 4
     @ put64 (h_directory_offset h) @ put64 (h_string_offset h) @ put64 (h_metadata_offset h)
     @ put64 (h_hash_table_offset h) @ put64 (h_signature_offset h) @ put64 (h_data_offset h)
     @ put64 (h_total_size h) @ put64 (h_checksum h) @ concat (map put64 (h_reserved h))"

definition get_header :: "u8 list \<Rightarrow> ERFHeader" where
  "get_header bs =
     \<lparr>h_magic = field bs 0 4,
      h_version_major = get16 (field bs 4 2),
      h_version_minor = get16 (field bs 6 2),
      h_header_size = get32 (field bs 8 4),
      h_flags = get32 (field bs 12 4),
      h_resource_count = get32 (field bs 16 4),
      h_directory_entry_size = get32 (field bs 20 4),
      h_reserved0 = get32 (field bs 24 4),
      h_directory_offset = get64 (field bs 32 8),
      h_string_offset = get64 (field bs 40 8),
      h_metadata_offset = get64 (field bs 48 8),
      h_hash_table_offset = get64 (field bs 56 8),
      h_signature_offset = get64 (field bs 64 8),
      h_data_offset = get64 (field bs 72 8),
      h_total_size = get64 (field bs 80 8),
      h_checksum = get64 (field bs 88 8),
      h_reserved = map (\<lambda>i. get64 (field bs (96 + 8 * i) 8)) [0..<8]\<rparr>"

definition header_ok :: "ERFHeader \<Rightarrow> bool" where
  "header_ok h \<longleftrightarrow> length (h_magic h) = 4 \<and> length (h_reserved h) = 8"

definition put_entry :: "ERFDirectoryEntry \<Rightarrow> u8 list" where
  "put_entry d =
     put32 (d_id d) @ put32 (d_type d) @ put32 (d_language d) @ put32 (d_flags d)
     @ put32 (d_name_offset d) @ put32 (d_reserved0 d)
     @ put64 (d_data_offset d) @ put64 (d_data_size d) @ put64 (d_original_size d)
     @ put64 (d_metadata_offset d) @ put64 (d_hash d) @ put64 (d_checksum d)
     @ put64 (d_timestamp d) @ concat (map put64 (d_reserved d))"

definition get_entry :: "u8 list \<Rightarrow> ERFDirectoryEntry" where
  "get_entry bs =
     \<lparr>d_id = get32 (field bs 0 4),
      d_type = get32 (field bs 4 4),
      d_language = get32 (field bs 8 4),
      d_flags = get32 (field bs 12 4),
      d_name_offset = get32 (field bs 16 4),
      d_reserved0 = get32 (field bs 20 4),
      d_data_offset = get64 (field bs 24 8),
      d_data_size = get64 (field bs 32 8),
      d_original_size = get64 (field bs 40 8),
      d_metadata_offset = get64 (field bs 48 8),
      d_hash = get64 (field bs 56 8),
      d_checksum = get64 (field bs 64 8),
      d_timestamp = get64 (field bs 72 8),
      d_reserved = map (\<lambda>i. get64 (field bs (80 + 8 * i) 8)) [0..<6]\<rparr>"

definition entry_ok :: "ERFDirectoryEntry \<Rightarrow> bool" where
  "entry_ok d \<longleftrightarrow> length (d_reserved d) = 6"

definition put_hash_header :: "ERFHashTableHeader \<Rightarrow> u8 list" where
  "put_hash_header t = put32 (t_bucket_count t) @ put32 (t_reserved0 t)"

definition get_hash_header :: "u8 list \<Rightarrow> ERFHashTableHeader" where
  "get_hash_header bs =
     \<lparr>t_bucket_count = get32 (field bs 0 4), t_reserved0 = get32 (field bs 4 4)\<rparr>"

definition put_bucket :: "ERFHashBucket \<Rightarrow> u8 list" where
  "put_bucket b = put64 (b_hash b) @ put32 (b_directory_index b) @ put32 (b_reserved0 b)"

definition get_bucket :: "u8 list \<Rightarrow> ERFHashBucket" where
  "get_bucket bs =
     \<lparr>b_hash = get64 (field bs 0 8), b_directory_index = get32 (field bs 8 4),
      b_reserved0 = get32 (field bs 12 4)\<rparr>"

lemma length_concat_put64: "length (concat (map put64 ws)) = 8 * length ws"
  by (induction ws) auto

lemma field_concat_put64:
  "length ws = n \<Longrightarrow> i < n \<Longrightarrow> field (concat (map put64 ws)) (8 * i) 8 = put64 (ws ! i)"
  using u64_codec.field_enc_array [of ws i] by (simp add: u64_codec.enc_array_def)

interpretation header_codec: codec put_header get_header header_ok sizeof_ERFHeader
proof unfold_locales
  fix h :: ERFHeader
  assume ok: "header_ok h"
  then show "length (put_header h) = sizeof_ERFHeader"
    by (simp add: put_header_def header_ok_def sizeof_defs length_concat_put64)
  show "get_header (put_header h) = h"
    using ok
    by (cases h)
      (auto simp: put_header_def get_header_def header_ok_def field_simps_struct
        field_concat_put64 intro!: nth_equalityI)
qed

interpretation entry_codec: codec put_entry get_entry entry_ok sizeof_ERFDirectoryEntry
proof unfold_locales
  fix d :: ERFDirectoryEntry
  assume ok: "entry_ok d"
  then show "length (put_entry d) = sizeof_ERFDirectoryEntry"
    by (simp add: put_entry_def entry_ok_def sizeof_defs length_concat_put64)
  show "get_entry (put_entry d) = d"
    using ok
    by (cases d)
      (auto simp: put_entry_def get_entry_def entry_ok_def field_simps_struct
        field_concat_put64 intro!: nth_equalityI)
qed

interpretation hash_header_codec: codec put_hash_header get_hash_header "\<lambda>_. True"
  sizeof_ERFHashTableHeader
  by unfold_locales
    (auto simp: put_hash_header_def get_hash_header_def field_simps_struct sizeof_defs)

interpretation bucket_codec: codec put_bucket get_bucket "\<lambda>_. True" sizeof_ERFHashBucket
  by unfold_locales
    (auto simp: put_bucket_def get_bucket_def field_simps_struct sizeof_defs)


definition sample_header :: ERFHeader where
  "sample_header = get_header (zeros 160)"

definition sample_entry :: ERFDirectoryEntry where
  "sample_entry = get_entry (map of_nat [0..<128])"


end
