(* ===== verification/Byte_Digest.thy ===== *)
theory Byte_Digest
  imports Prelude
begin

text \<open>
  The interface the two hash routines share: a register updated byte by byte and a final
  step. Where the update is injective in the register and in the byte, two inputs that
  differ in exactly one byte never have the same digest.
\<close>

lemma xor_cancel_left: "(c :: 'a :: len word) XOR a = c XOR b \<Longrightarrow> a = b"
proof -
  assume "c XOR a = c XOR b"
  then have "c XOR (c XOR a) = c XOR (c XOR b)" by simp
  then show "a = b" by (simp flip: xor.assoc)
qed

lemma xor_cancel_right: "(a :: 'a :: len word) XOR c = b XOR c \<Longrightarrow> a = b"
  using xor_cancel_left [of c a b] by (simp add: xor.commute)

lemma ucast_u8_u64_inject: "(ucast (p :: u8) :: u64) = ucast q \<Longrightarrow> p = q"
proof -
  assume "(ucast p :: u64) = ucast q"
  then have "unat (ucast p :: u64) = unat (ucast q :: u64)" by simp
  moreover have "unat (ucast r :: u64) = unat r" for r :: u8
    using unat_lt2p [of r] by (simp add: unsigned_ucast_eq take_bit_nat_eq_self)
  ultimately have "unat p = unat q" by simp
  then show "p = q" by (rule unsigned_word_eqI)
qed

lemma ucast_u8_u32_inject: "(ucast (p :: u8) :: u32) = ucast q \<Longrightarrow> p = q"
proof -
  assume "(ucast p :: u32) = ucast q"
  then have "unat (ucast p :: u32) = unat (ucast q :: u32)" by simp
  moreover have "unat (ucast r :: u32) = unat r" for r :: u8
    using unat_lt2p [of r] by (simp add: unsigned_ucast_eq take_bit_nat_eq_self)
  ultimately have "unat p = unat q" by simp
  then show "p = q" by (rule unsigned_word_eqI)
qed

locale byte_digest =
  fixes update :: "'s \<Rightarrow> u8 \<Rightarrow> 's"
    and init :: 's
    and final :: "'s \<Rightarrow> 'd"
  assumes update_inject_state: "update a p = update b p \<Longrightarrow> a = b"
    and update_inject_byte: "update a p = update a q \<Longrightarrow> p = q"
    and final_inject: "final a = final b \<Longrightarrow> a = b"
begin

definition digest :: "u8 list \<Rightarrow> 'd" where
  "digest p = final (foldl update init p)"

lemma foldl_inject_state: "foldl update a p = foldl update b p \<Longrightarrow> a = b"
  by (induction p arbitrary: a b) (auto dest: update_inject_state)

lemma digest_one_byte:
  assumes "digest (xs @ [p] @ ys) = digest (xs @ [q] @ ys)"
  shows "p = q"
proof -
  let ?s = "foldl update init xs"
  from assms have "foldl update (update ?s p) ys = foldl update (update ?s q) ys"
    by (auto simp: digest_def dest: final_inject)
  then have "update ?s p = update ?s q" by (rule foldl_inject_state)
  then show ?thesis by (rule update_inject_byte)
qed

lemma digest_middle:
  assumes "digest (xs @ u @ ys) = digest (xs @ v @ ys)"
  shows "\<exists>s. foldl update s u = foldl update s v"
  using assms by (auto simp: digest_def dest!: final_inject foldl_inject_state)

end

end
