(* ===== verification/Fnv1a.thy ===== *)
theory Fnv1a
  imports Byte_Digest
begin

text \<open>
  \<open>src/common/fnv1a.c\<close>: the 64-bit hash of resource names and the 32-bit hash of
  language tags, both at their machine width, where the multiplication wraps.
\<close>

definition fnv1a64_update :: "u64 \<Rightarrow> u8 \<Rightarrow> u64" where
  "fnv1a64_update hash p = (hash XOR ucast p) * 0x100000001b3"

definition elfr_fnv1a64 :: "u8 list \<Rightarrow> u64" where
  "elfr_fnv1a64 p = foldl fnv1a64_update 0xcbf29ce484222325 p"

definition fnv1a32_update :: "u32 \<Rightarrow> u8 \<Rightarrow> u32" where
  "fnv1a32_update hash p = (hash XOR ucast p) * 0x01000193"

definition elfr_fnv1a32 :: "u8 list \<Rightarrow> u32" where
  "elfr_fnv1a32 p = foldl fnv1a32_update 0x811c9dc5 p"

text \<open>Both primes are odd, so that multiplying by them can be undone.\<close>

lemma fnv_prime64_cancel: "(a :: u64) * 0x100000001b3 = b * 0x100000001b3 \<Longrightarrow> a = b"
proof -
  assume "a * 0x100000001b3 = b * 0x100000001b3"
  then have "a * 0x100000001b3 * 0xce965057aff6957b = b * 0x100000001b3 * 0xce965057aff6957b"
    by (rule arg_cong)
  moreover have "(0x100000001b3 :: u64) * 0xce965057aff6957b = 1" by simp
  ultimately show "a = b" by (simp only: mult.assoc mult_1_right)
qed

lemma fnv_prime32_cancel: "(a :: u32) * 0x01000193 = b * 0x01000193 \<Longrightarrow> a = b"
proof -
  assume "a * 0x01000193 = b * 0x01000193"
  then have "a * 0x01000193 * 0x359c449b = b * 0x01000193 * 0x359c449b" by (rule arg_cong)
  moreover have "(0x01000193 :: u32) * 0x359c449b = 1" by simp
  ultimately show "a = b" by (simp only: mult.assoc mult_1_right)
qed

interpretation fnv64: byte_digest fnv1a64_update "0xcbf29ce484222325" "\<lambda>h. h"
  by unfold_locales
    (auto simp: fnv1a64_update_def dest!: fnv_prime64_cancel
      dest: xor_cancel_left xor_cancel_right ucast_u8_u64_inject)

interpretation fnv32: byte_digest fnv1a32_update "0x811c9dc5" "\<lambda>h. h"
  by unfold_locales
    (auto simp: fnv1a32_update_def dest!: fnv_prime32_cancel
      dest: xor_cancel_left xor_cancel_right ucast_u8_u32_inject)

lemma elfr_fnv1a64_digest: "elfr_fnv1a64 = fnv64.digest"
  by (intro ext) (simp add: elfr_fnv1a64_def fnv64.digest_def)

lemma elfr_fnv1a32_digest: "elfr_fnv1a32 = fnv32.digest"
  by (intro ext) (simp add: elfr_fnv1a32_def fnv32.digest_def)

text \<open>
  C36. Two names that differ in exactly one byte never share a hash, in the 64-bit and in
  the 32-bit routine.
\<close>

theorem elfr_fnv1a_one_byte:
  assumes "p \<noteq> q"
  shows "elfr_fnv1a64 (xs @ [p] @ ys) \<noteq> elfr_fnv1a64 (xs @ [q] @ ys)
    \<and> elfr_fnv1a32 (xs @ [p] @ ys) \<noteq> elfr_fnv1a32 (xs @ [q] @ ys)"
  using assms fnv64.digest_one_byte [of xs p ys q] fnv32.digest_one_byte [of xs p ys q]
  unfolding elfr_fnv1a64_digest elfr_fnv1a32_digest by blast

theorem elfr_fnv1a_one_byte_witness:
  "elfr_fnv1a64 ([1, 2] @ [3] @ [6]) \<noteq> elfr_fnv1a64 ([1, 2] @ [4] @ [6])
    \<and> elfr_fnv1a32 ([1, 2] @ [3] @ [6]) \<noteq> elfr_fnv1a32 ([1, 2] @ [4] @ [6])"
  by (rule elfr_fnv1a_one_byte) simp

lemma elfr_fnv1a_empty: "elfr_fnv1a64 [] = 0xcbf29ce484222325" "elfr_fnv1a32 [] = 0x811c9dc5"
  by (simp_all add: elfr_fnv1a64_def elfr_fnv1a32_def)

lemma elfr_fnv1a64_logo_config:
  "elfr_fnv1a64 (bytes_of ''logo'') \<noteq> elfr_fnv1a64 (bytes_of ''config'')"
  by code_simp

end
