(* ===== verification/Yaml_Nodes.thy ===== *)
theory Yaml_Nodes
  imports C_Text Erf_Format Fnv1a
begin

text \<open>
  The lower half of \<open>src/elfrc/manifest_yaml.c\<close>: access to the nodes of a loaded YAML document,
  the reading of numbers, and the tables that turn names into codes.

  libyaml is not part of the program. A loaded document is what its header documents: the list
  of nodes, numbered from 1, the first of them the root; a sequence holds node numbers, a mapping
  pairs of them; \<open>yaml_document_get_node\<close> gives \<open>NULL\<close> for a number out of range.
\<close>

section \<open>Documents\<close>

datatype yaml_node =
    YAML_SCALAR_NODE (start_mark: nat) (scalar_value: string)
  | YAML_SEQUENCE_NODE (start_mark: nat) (sequence_items: "int list")
  | YAML_MAPPING_NODE (start_mark: nat) (mapping_pairs: "(int \<times> int) list")

type_synonym yaml_document = "yaml_node list"

definition yaml_document_get_node :: "yaml_document \<Rightarrow> int \<Rightarrow> yaml_node option" where
  "yaml_document_get_node doc i = (if 0 < i \<and> i \<le> int (length doc) then Some (doc ! nat (i - 1)) else None)"

definition yaml_document_get_root_node :: "yaml_document \<Rightarrow> yaml_node option" where
  "yaml_document_get_root_node doc = (case doc of [] \<Rightarrow> None | n # _ \<Rightarrow> Some n)"

definition node_at :: "yaml_document \<Rightarrow> int \<Rightarrow> yaml_node option" where
  "node_at doc i = (if i = 0 then None else yaml_document_get_node doc i)"

definition node_line :: "yaml_node option \<Rightarrow> int" where
  "node_line node = (case node of
      Some n \<Rightarrow> sint (of_nat (start_mark n + 1) :: u32)
    | None \<Rightarrow> 0)"

fun scalar_dup :: "yaml_node option \<Rightarrow> string option" where
  "scalar_dup (Some (YAML_SCALAR_NODE l val)) = Some (c_string val)"
| "scalar_dup _ = None"

definition is_key :: "string \<Rightarrow> yaml_node option \<Rightarrow> bool" where
  "is_key key k = (case k of
      Some (YAML_SCALAR_NODE l val) \<Rightarrow>
        strncmp_eq val key (length val) \<and> length key = length val
    | _ \<Rightarrow> False)"

fun map_get_pairs :: "yaml_document \<Rightarrow> (int \<times> int) list \<Rightarrow> string \<Rightarrow> yaml_node option" where
  "map_get_pairs doc [] key = None"
| "map_get_pairs doc ((k, v) # pairs) key =
     (if is_key key (node_at doc k) then node_at doc v else map_get_pairs doc pairs key)"

fun map_get :: "yaml_document \<Rightarrow> yaml_node option \<Rightarrow> string \<Rightarrow> yaml_node option" where
  "map_get doc (Some (YAML_MAPPING_NODE l pairs)) key = map_get_pairs doc pairs key"
| "map_get doc _ key = None"

section \<open>Numbers\<close>

definition parse_uint :: "string option \<Rightarrow> u32 option" where
  "parse_uint s = (case s of
      None \<Rightarrow> None
    | Some t \<Rightarrow>
        if t = [] then None
        else let (v, rest) = strtol10 t in
          if rest \<noteq> [] \<or> v < 0 then None else Some (of_int v))"

section \<open>Tables\<close>

text \<open>The first row whose name equals the given one up to the case of letters.\<close>

fun table_get :: "(string \<times> 'a) list \<Rightarrow> string \<Rightarrow> 'a option" where
  "table_get [] name = None"
| "table_get ((n, v) # rows) name = (if strcasecmp_eq name n then Some v else table_get rows name)"

definition type_names :: "(string \<times> erf_resource_type) list" where
  "type_names =
     [(''binary'', ERF_TYPE_BINARY), (''string'', ERF_TYPE_STRING), (''json'', ERF_TYPE_JSON),
      (''xml'', ERF_TYPE_XML), (''yaml'', ERF_TYPE_YAML), (''png'', ERF_TYPE_PNG),
      (''jpeg'', ERF_TYPE_JPEG), (''jpg'', ERF_TYPE_JPEG), (''svg'', ERF_TYPE_SVG),
      (''gif'', ERF_TYPE_GIF), (''icon'', ERF_TYPE_ICON), (''ico'', ERF_TYPE_ICON),
      (''font'', ERF_TYPE_FONT), (''ttf'', ERF_TYPE_FONT), (''audio'', ERF_TYPE_AUDIO),
      (''video'', ERF_TYPE_VIDEO), (''shader'', ERF_TYPE_SHADER),
      (''certificate'', ERF_TYPE_CERTIFICATE), (''cert'', ERF_TYPE_CERTIFICATE)]"

definition type_from_name :: "string \<Rightarrow> u32 option" where
  "type_from_name name = map_option type_code (table_get type_names name)"

definition type_extensions :: "(string \<times> erf_resource_type) list" where
  "type_extensions =
     [(''.png'', ERF_TYPE_PNG), (''.jpg'', ERF_TYPE_JPEG), (''.jpeg'', ERF_TYPE_JPEG),
      (''.svg'', ERF_TYPE_SVG), (''.gif'', ERF_TYPE_GIF), (''.ico'', ERF_TYPE_ICON),
      (''.ttf'', ERF_TYPE_FONT), (''.otf'', ERF_TYPE_FONT), (''.json'', ERF_TYPE_JSON),
      (''.xml'', ERF_TYPE_XML), (''.yaml'', ERF_TYPE_YAML), (''.yml'', ERF_TYPE_YAML),
      (''.wav'', ERF_TYPE_AUDIO), (''.mp3'', ERF_TYPE_AUDIO), (''.ogg'', ERF_TYPE_AUDIO),
      (''.mp4'', ERF_TYPE_VIDEO), (''.webm'', ERF_TYPE_VIDEO), (''.spv'', ERF_TYPE_SHADER),
      (''.glsl'', ERF_TYPE_SHADER), (''.hlsl'', ERF_TYPE_SHADER), (''.pem'', ERF_TYPE_CERTIFICATE),
      (''.crt'', ERF_TYPE_CERTIFICATE), (''.cer'', ERF_TYPE_CERTIFICATE), (''.txt'', ERF_TYPE_STRING)]"

definition type_from_extension :: "string \<Rightarrow> u32" where
  "type_from_extension filename = (case strrchr filename CHR ''.'' of
      None \<Rightarrow> type_code ERF_TYPE_BINARY
    | Some dot \<Rightarrow> (case table_get type_extensions dot of
          Some t \<Rightarrow> type_code t
        | None \<Rightarrow> type_code ERF_TYPE_BINARY))"

definition compression_names :: "(string \<times> erf_compression) list" where
  "compression_names =
     [(''none'', ERF_COMPRESSION_NONE), (''deflate'', ERF_COMPRESSION_DEFLATE),
      (''zstd'', ERF_COMPRESSION_ZSTD), (''zstandard'', ERF_COMPRESSION_ZSTD),
      (''lz4'', ERF_COMPRESSION_LZ4), (''brotli'', ERF_COMPRESSION_BROTLI), (''xz'', ERF_COMPRESSION_XZ)]"

definition compression_from_name :: "string \<Rightarrow> u32 option" where
  "compression_from_name name = map_option compression_code (table_get compression_names name)"

definition flag_names :: "(string \<times> erf_resource_flag) list" where
  "flag_names =
     [(''compressed'', ERF_RFLAG_COMPRESSED), (''encrypted'', ERF_RFLAG_ENCRYPTED),
      (''read_only'', ERF_RFLAG_READ_ONLY), (''readonly'', ERF_RFLAG_READ_ONLY),
      (''executable'', ERF_RFLAG_EXECUTABLE), (''optional'', ERF_RFLAG_OPTIONAL)]"

definition flag_from_name :: "string \<Rightarrow> u32 option" where
  "flag_from_name name = map_option rflag_bit (table_get flag_names name)"

definition language_tags :: "(string \<times> u32) list" where
  "language_tags =
     [(''en-us'', 1033), (''en_us'', 1033), (''en'', 1033), (''de-de'', 1031), (''de_de'', 1031),
      (''de'', 1031), (''fr-fr'', 1036), (''fr_fr'', 1036), (''fr'', 1036)]"

definition language_from_tag :: "string option \<Rightarrow> u32" where
  "language_from_tag tag = (case tag of
      None \<Rightarrow> ERF_LANGUAGE_NEUTRAL
    | Some t \<Rightarrow>
        if t = [] \<or> strcasecmp_eq t ''neutral'' then ERF_LANGUAGE_NEUTRAL
        else case table_get language_tags t of
            Some i \<Rightarrow> i
          | None \<Rightarrow>
              let n = (if 128 \<le> length t then 127 else length t);
                  lower = map tolower (take n t);
                  h = elfr_fnv1a32 (bytes_of lower)
              in if h = 0 then 1 else h)"

section \<open>Facts\<close>

lemma is_key_iff:
  assumes "no_nul key"
  shows "is_key key k \<longleftrightarrow> (\<exists>l. k = Some (YAML_SCALAR_NODE l key))"
proof -
  have "strncmp_eq val key (length val) \<and> length key = length val \<longleftrightarrow> val = key" for val
  proof
    assume eq: "strncmp_eq val key (length val) \<and> length key = length val"
    then have t: "take (length val) (c_string val) = key"
      using c_string_id [OF assms] by (simp add: strncmp_eq_def)
    have "length (c_string val) \<le> length val" by (simp add: c_string_def length_takeWhile_le)
    with t have "c_string val = key" by simp
    moreover have "val = c_string val @ dropWhile (\<lambda>c. chr_code c \<noteq> 0) val"
      by (simp add: c_string_def)
    ultimately show "val = key" using eq by (metis append_eq_conv_conj take_all_iff order_refl)
  next
    assume "val = key"
    then show "strncmp_eq val key (length val) \<and> length key = length val"
      by (simp add: strncmp_eq_def)
  qed
  then show ?thesis by (auto simp: is_key_def split: option.splits yaml_node.splits)
qed

lemma scalar_dup_no_nul: "scalar_dup n = Some s \<Longrightarrow> no_nul s"
  by (cases n rule: scalar_dup.cases) auto

lemma table_get_lower: "table_get rows (map tolower name) = table_get rows name"
  by (induction rows name rule: table_get.induct) simp_all

lemma tolower_no_nul: "chr_code c \<noteq> 0 \<Longrightarrow> chr_code (tolower c) \<noteq> 0"
  by (auto simp: tolower_def chr_code_def)

end
