(* ===== verification/Manifest_Types.thy ===== *)
theory Manifest_Types
  imports Prelude
begin

text \<open>
  \<open>src/elfrc/manifest.h\<close>: the parsed manifest, the only data the manifest parser hands to
  the container builder; and the file interface of the C library as the compiler uses it. A
  \<open>char *\<close> that may be NULL is a \<open>string option\<close>.
\<close>

record elfrc_metadata_kv =
  m_key :: string
  m_value :: string

record elfrc_resource =
  r_name :: "string option"
  r_file :: "string option"
  r_type :: u32
  r_language :: u32
  r_compression :: u32
  r_flags :: u32
  r_id_explicit :: bool
  r_id :: u32
  r_final_id :: u32
  r_metadata :: "elfrc_metadata_kv list"
  r_line :: int

record elfrc_manifest =
  mf_version :: int
  mf_module :: "string option"
  mf_resources :: "elfrc_resource list"

text \<open>
  A file opened for reading: the \<open>long\<close> that \<open>ftell\<close> returns after seeking to the end
  (negative when it fails) and the bytes \<open>fread\<close> can deliver from the start. The file system
  maps a path to what \<open>fopen(path, "rb")\<close> gives, if it succeeds.
\<close>

record open_file =
  of_size :: int
  of_bytes :: "u8 list"

type_synonym file_system = "string \<Rightarrow> open_file option"

definition fread :: "open_file \<Rightarrow> nat \<Rightarrow> u8 list" where
  "fread f n = take n (of_bytes f)"

end
