(* ===== verification/Manifest_Yaml.thy ===== *)
theory Manifest_Yaml
  imports Yaml_Nodes Manifest_Types
begin

text \<open>
  The upper half of \<open>src/elfrc/manifest_yaml.c\<close>: from the nodes of a document to the manifest.
  \<open>parse_ctx\<close> carries the document, the paths and the first error; every operation returns the
  context it leaves and the resource it has filled in so far. A \<open>NULL\<close> string that reaches a
  string function or a \<open>%s\<close> conversion has no defined result and is \<open>None\<close>.
\<close>

section \<open>Context and errors\<close>

record defaults =
  df_language :: "string option"
  df_compression :: "string option"
  df_encryption :: "string option"

record parse_ctx =
  pc_doc :: yaml_document
  pc_manifest_path :: string
  pc_manifest_dir :: string
  pc_errbuf :: string
  pc_failed :: bool

definition ELFRC_ERRBUF_SIZE :: nat where "ELFRC_ERRBUF_SIZE = 512"

definition decimal_int :: "int \<Rightarrow> string" where
  "decimal_int i = (if i < 0 then CHR ''-'' # decimal (nat (- i)) else decimal (nat i))"

definition quoted :: "string \<Rightarrow> string" where
  "quoted s = CHR 0x27 # s @ [CHR 0x27]"

text \<open>\<open>msg\<close> is \<open>None\<close> when one of its \<open>%s\<close> arguments is \<open>NULL\<close>; it is only formatted for the first error.\<close>

definition set_error :: "parse_ctx \<Rightarrow> int \<Rightarrow> string option \<Rightarrow> parse_ctx option" where
  "set_error ctx line msg =
     (if pc_failed ctx then Some ctx
      else do {
        m \<leftarrow> msg;
        let text = snprintf 400 m;
        Some (ctx\<lparr>pc_failed := True, pc_errbuf := snprintf ELFRC_ERRBUF_SIZE
          (if 0 < line then pc_manifest_path ctx @ '':'' @ decimal_int line @ '': error: '' @ text
           else pc_manifest_path ctx @ '': error: '' @ text)\<rparr>)
      })"

text \<open>The message of an error in the resource \<open>r\<close>: \<open>resource '%s': ...\<close> with its name.\<close>

definition resource_msg :: "elfrc_resource \<Rightarrow> string \<Rightarrow> string option" where
  "resource_msg r m = map_option (\<lambda>name. ''resource '' @ quoted name @ '': '' @ m) (r_name r)"

definition resource_msg1 :: "elfrc_resource \<Rightarrow> string \<Rightarrow> string option \<Rightarrow> string \<Rightarrow> string option" where
  "resource_msg1 r a s b = do {
     name \<leftarrow> r_name r;
     t \<leftarrow> s;
     Some (''resource '' @ quoted name @ '': '' @ a @ quoted t @ b)
   }"

definition fail_with :: "parse_ctx \<Rightarrow> int \<Rightarrow> string option \<Rightarrow> 'a \<Rightarrow> (parse_ctx \<times> 'a) option" where
  "fail_with ctx line msg x = map_option (\<lambda>ctx'. (ctx', x)) (set_error ctx line msg)"

section \<open>Metadata and flags\<close>

fun parse_metadata_pairs ::
    "parse_ctx \<Rightarrow> int \<Rightarrow> (int \<times> int) list \<Rightarrow> elfrc_resource \<Rightarrow> (parse_ctx \<times> elfrc_resource) option" where
  "parse_metadata_pairs ctx line [] r = Some (ctx, r)"
| "parse_metadata_pairs ctx line ((k, v) # pairs) r =
     (case (scalar_dup (node_at (pc_doc ctx) k), scalar_dup (node_at (pc_doc ctx) v)) of
        (Some key, Some val) \<Rightarrow>
          if list_ex (\<lambda>kv. m_key kv = key) (r_metadata r)
          then fail_with ctx line (resource_msg1 r ''duplicate metadata key '' (Some key) []) r
          else parse_metadata_pairs ctx line pairs
            (r\<lparr>r_metadata := r_metadata r @ [\<lparr>m_key = key, m_value = val\<rparr>]\<rparr>)
      | _ \<Rightarrow> fail_with ctx line (resource_msg r ''metadata keys/values must be scalars'') r)"

definition parse_metadata ::
    "parse_ctx \<Rightarrow> yaml_node option \<Rightarrow> elfrc_resource \<Rightarrow> (parse_ctx \<times> elfrc_resource) option" where
  "parse_metadata ctx meta_map r = (case meta_map of
      None \<Rightarrow> Some (ctx, r)
    | Some (YAML_MAPPING_NODE l pairs) \<Rightarrow> parse_metadata_pairs ctx (node_line meta_map) pairs r
    | _ \<Rightarrow> fail_with ctx (node_line meta_map)
        (resource_msg r (quoted ''metadata'' @ '' must be a mapping'')) r)"

fun parse_flag_items ::
    "parse_ctx \<Rightarrow> int \<Rightarrow> int list \<Rightarrow> elfrc_resource \<Rightarrow> (parse_ctx \<times> elfrc_resource) option" where
  "parse_flag_items ctx line [] r = Some (ctx, r)"
| "parse_flag_items ctx line (item # items) r =
     (let name = scalar_dup (node_at (pc_doc ctx) item) in
      case Option.bind name flag_from_name of
        None \<Rightarrow> fail_with ctx line (resource_msg1 r ''unknown flag name ''
          (Some (case name of Some s \<Rightarrow> s | None \<Rightarrow> ''?'')) []) r
      | Some b \<Rightarrow> parse_flag_items ctx line items (r\<lparr>r_flags := r_flags r OR b\<rparr>))"

definition parse_flags ::
    "parse_ctx \<Rightarrow> yaml_node option \<Rightarrow> elfrc_resource \<Rightarrow> (parse_ctx \<times> elfrc_resource) option" where
  "parse_flags ctx flags_node r = (case flags_node of
      None \<Rightarrow> Some (ctx, r)
    | Some (YAML_SCALAR_NODE l val) \<Rightarrow>
        let s = scalar_dup flags_node in
        (case parse_uint s of
          Some v \<Rightarrow> Some (ctx, r\<lparr>r_flags := v\<rparr>)
        | None \<Rightarrow> fail_with ctx (node_line flags_node)
            (resource_msg1 r (''invalid '' @ quoted ''flags'' @ '' value '') s []) r)
    | Some (YAML_SEQUENCE_NODE l items) \<Rightarrow> parse_flag_items ctx (node_line flags_node) items r
    | Some (YAML_MAPPING_NODE l pairs) \<Rightarrow> fail_with ctx (node_line flags_node)
        (resource_msg r (quoted ''flags'' @ '' must be an integer or a list of flag names'')) r)"

section \<open>The fields of a resource\<close>

definition resolve_file :: "parse_ctx \<Rightarrow> string \<Rightarrow> string" where
  "resolve_file ctx file_rel =
     (if (case file_rel of c # _ \<Rightarrow> c = CHR ''/'' | [] \<Rightarrow> False) then file_rel
      else pc_manifest_dir ctx @ ''/'' @ file_rel)"

definition parse_type ::
    "parse_ctx \<Rightarrow> yaml_node option \<Rightarrow> elfrc_resource \<Rightarrow> (parse_ctx \<times> elfrc_resource) option" where
  "parse_type ctx type_n r = (case type_n of
      None \<Rightarrow> do {
        file \<leftarrow> r_file r;
        Some (ctx, r\<lparr>r_type := type_from_extension file\<rparr>)
      }
    | Some n \<Rightarrow> do {
        type_s \<leftarrow> scalar_dup type_n;
        case type_from_name type_s of
          Some t \<Rightarrow> Some (ctx, r\<lparr>r_type := t\<rparr>)
        | None \<Rightarrow> (case parse_uint (Some type_s) of
              Some t \<Rightarrow> Some (ctx, r\<lparr>r_type := t\<rparr>)
            | None \<Rightarrow> fail_with ctx (node_line type_n)
                (resource_msg1 r ''unknown type '' (Some type_s) []) r)
      })"

definition parse_id ::
    "parse_ctx \<Rightarrow> yaml_node option \<Rightarrow> elfrc_resource \<Rightarrow> (parse_ctx \<times> elfrc_resource) option" where
  "parse_id ctx id_n r = (case id_n of
      None \<Rightarrow> Some (ctx, r)
    | Some n \<Rightarrow>
        let id_s = scalar_dup id_n in
        (case parse_uint id_s of
          Some v \<Rightarrow> Some (ctx, r\<lparr>r_id := v, r_id_explicit := True\<rparr>)
        | None \<Rightarrow> fail_with ctx (node_line id_n)
            (resource_msg1 r (''invalid '' @ quoted ''id'' @ '' value '') id_s [])
            (r\<lparr>r_id_explicit := True\<rparr>)))"

text \<open>A string that a resource gives itself or takes from the defaults; \<open>strdup\<close> of \<open>NULL\<close> is undefined.\<close>

definition own_or_default :: "yaml_node option \<Rightarrow> string option \<Rightarrow> string option option" where
  "own_or_default n def = (case n of Some m \<Rightarrow> Some (scalar_dup n) | None \<Rightarrow> map_option Some def)"

definition parse_language ::
    "defaults \<Rightarrow> yaml_node option \<Rightarrow> elfrc_resource \<Rightarrow> elfrc_resource option" where
  "parse_language defs lang_n r = do {
     lang_s \<leftarrow> own_or_default lang_n (df_language defs);
     Some (r\<lparr>r_language := language_from_tag lang_s\<rparr>)
   }"

definition node_or :: "yaml_node option \<Rightarrow> yaml_node option \<Rightarrow> yaml_node option" where
  "node_or n m = (if n \<noteq> None then n else m)"

definition parse_compression ::
    "parse_ctx \<Rightarrow> yaml_node option \<Rightarrow> defaults \<Rightarrow> yaml_node option \<Rightarrow> elfrc_resource
      \<Rightarrow> (parse_ctx \<times> elfrc_resource) option" where
  "parse_compression ctx rnode defs comp_n r = do {
     comp_or_null \<leftarrow> own_or_default comp_n (df_compression defs);
     comp_s \<leftarrow> comp_or_null;
     case compression_from_name comp_s of
       None \<Rightarrow> fail_with ctx (node_line (node_or comp_n rnode))
         (resource_msg1 r ''unknown compression algorithm '' (Some comp_s) []) r
     | Some algo \<Rightarrow>
         if algo \<noteq> compression_code ERF_COMPRESSION_NONE
         then fail_with ctx (node_line (node_or comp_n rnode))
           (resource_msg1 r ''unsupported compression algorithm '' (Some comp_s)
             ('' (this version of elfrc only implements '' @ quoted ''none'' @ '')'')) r
         else Some (ctx, r\<lparr>r_compression := algo\<rparr>)
   }"

definition parse_encryption ::
    "parse_ctx \<Rightarrow> yaml_node option \<Rightarrow> defaults \<Rightarrow> yaml_node option \<Rightarrow> elfrc_resource
      \<Rightarrow> (parse_ctx \<times> elfrc_resource) option" where
  "parse_encryption ctx rnode defs enc_n r = do {
     enc_or_null \<leftarrow> own_or_default enc_n (df_encryption defs);
     enc_s \<leftarrow> enc_or_null;
     if \<not> strcasecmp_eq enc_s ''none'' \<and> enc_s \<noteq> []
     then fail_with ctx (node_line (node_or enc_n rnode))
       (resource_msg1 r ''unsupported encryption algorithm '' (Some enc_s)
         ('' (this version of elfrc only implements '' @ quoted ''none'' @ '')'')) r
     else Some (ctx, r)
   }"

text \<open>Everything after the checks of name and file; an error does not stop the fields that follow.\<close>

definition parse_fields ::
    "parse_ctx \<Rightarrow> yaml_node option \<Rightarrow> defaults \<Rightarrow> elfrc_resource \<Rightarrow> (parse_ctx \<times> elfrc_resource) option" where
  "parse_fields ctx rnode defs r = do {
     let field = map_get (pc_doc ctx) rnode;
     (ctx, r) \<leftarrow> parse_type ctx (field ''type'') r;
     (ctx, r) \<leftarrow> parse_id ctx (field ''id'') r;
     r \<leftarrow> parse_language defs (field ''language'') r;
     (ctx, r) \<leftarrow> parse_compression ctx rnode defs (field ''compression'') r;
     (ctx, r) \<leftarrow> parse_encryption ctx rnode defs (field ''encryption'') r;
     (ctx, r) \<leftarrow> parse_metadata ctx (field ''metadata'') r;
     parse_flags ctx (field ''flags'') r
   }"

definition zero_resource :: elfrc_resource where
  "zero_resource =
     \<lparr>r_name = None, r_file = None, r_type = 0, r_language = 0, r_compression = 0, r_flags = 0,
      r_id_explicit = False, r_id = 0, r_final_id = 0, r_metadata = [], r_line = 0\<rparr>"

text \<open>\<open>is_reg\<close>: \<open>stat\<close> succeeds on the path and finds a regular file.\<close>

definition parse_new_resource ::
    "(string \<Rightarrow> bool) \<Rightarrow> parse_ctx \<Rightarrow> yaml_node option \<Rightarrow> defaults \<Rightarrow> (parse_ctx \<times> elfrc_resource) option" where
  "parse_new_resource is_reg ctx rnode defs = do {
     let r = zero_resource\<lparr>r_line := node_line rnode\<rparr>;
     let name_n = map_get (pc_doc ctx) rnode ''name'';
     if name_n = None
     then fail_with ctx (r_line r) (Some (''resource is missing required field '' @ quoted ''name'')) r
     else do {
       let r = r\<lparr>r_name := scalar_dup name_n\<rparr>;
       let file_n = map_get (pc_doc ctx) rnode ''file'';
       if file_n = None
       then fail_with ctx (r_line r)
         (map_option (\<lambda>name. ''resource '' @ quoted name @ '' is missing required field '' @ quoted ''file'')
           (r_name r)) r
       else do {
         file_rel \<leftarrow> scalar_dup file_n;
         let r = r\<lparr>r_file := Some (resolve_file ctx file_rel)\<rparr>;
         if \<not> is_reg (resolve_file ctx file_rel)
         then fail_with ctx (r_line r) (resource_msg1 r ''cannot open file '' (r_file r) []) r
         else parse_fields ctx rnode defs r
       }
     }
   }"

definition push_resource :: "elfrc_manifest \<Rightarrow> elfrc_resource \<Rightarrow> elfrc_manifest" where
  "push_resource m r = m\<lparr>mf_resources := mf_resources m @ [r]\<rparr>"

definition parse_resource ::
    "(string \<Rightarrow> bool) \<Rightarrow> parse_ctx \<Rightarrow> yaml_node \<Rightarrow> defaults \<Rightarrow> elfrc_manifest
      \<Rightarrow> (parse_ctx \<times> elfrc_manifest) option" where
  "parse_resource is_reg ctx rnode defs m = (case rnode of
      YAML_MAPPING_NODE l pairs \<Rightarrow> do {
        (ctx, r) \<leftarrow> parse_new_resource is_reg ctx (Some rnode) defs;
        Some (ctx, push_resource m r)
      }
    | _ \<Rightarrow> fail_with ctx (node_line (Some rnode))
        (Some (''each entry in '' @ quoted ''resources'' @ '' must be a mapping'')) m)"

fun parse_resources ::
    "(string \<Rightarrow> bool) \<Rightarrow> parse_ctx \<Rightarrow> int list \<Rightarrow> defaults \<Rightarrow> elfrc_manifest
      \<Rightarrow> (parse_ctx \<times> elfrc_manifest) option" where
  "parse_resources is_reg ctx [] defs m = Some (ctx, m)"
| "parse_resources is_reg ctx (item # items) defs m = do {
     rnode \<leftarrow> node_at (pc_doc ctx) item;
     (ctx, m) \<leftarrow> parse_resource is_reg ctx rnode defs m;
     if pc_failed ctx then Some (ctx, m) else parse_resources is_reg ctx items defs m
   }"

end
