(* ===== verification/Manifest_Ids.thy ===== *)
theory Manifest_Ids
  imports Manifest_Yaml
begin

text \<open>
  \<open>assign_and_validate_ids\<close> of \<open>src/elfrc/manifest_yaml.c\<close>: the explicit ids are sorted and
  checked for duplicates, the other resources get the next free id from 1 on, and no two resources
  may share name and language.
\<close>

section \<open>Sorted arrays of ids\<close>

fun adjacent_duplicate :: "u32 list \<Rightarrow> u32 option" where
  "adjacent_duplicate (x # y # zs) = (if y = x then Some y else adjacent_duplicate (y # zs))"
| "adjacent_duplicate _ = None"

text \<open>\<open>bsearch\<close> on the positions from \<open>lo\<close> up to \<open>hi\<close> of a sorted array.\<close>

function bsearch_from :: "u32 \<Rightarrow> u32 list \<Rightarrow> nat \<Rightarrow> nat \<Rightarrow> bool" where
  "bsearch_from key ids lo hi =
     (if lo < hi
      then let mid = (lo + hi) div 2 in
        if key < ids ! mid then bsearch_from key ids lo mid
        else if ids ! mid < key then bsearch_from key ids (mid + 1) hi
        else True
      else False)"
  by pat_completeness auto

termination by (relation "measure (\<lambda>(key, ids, lo, hi). hi - lo)") auto

declare bsearch_from.simps [simp del]

definition bsearch :: "u32 \<Rightarrow> u32 list \<Rightarrow> bool" where
  "bsearch key ids = bsearch_from key ids 0 (length ids)"

text \<open>The loop that skips the explicit ids; the counter wraps, so that it might never end.\<close>

partial_function (option) skip_ids :: "u32 list \<Rightarrow> u32 \<Rightarrow> u32 option" where
  "skip_ids ids next = (if bsearch next ids then skip_ids ids (next + 1) else Some next)"

declare skip_ids.simps [code]

fun assign_ids :: "u32 list \<Rightarrow> u32 \<Rightarrow> elfrc_resource list \<Rightarrow> elfrc_resource list option" where
  "assign_ids ids next [] = Some []"
| "assign_ids ids next (r # rs) =
     (if r_id_explicit r
      then map_option (\<lambda>rest. r\<lparr>r_final_id := r_id r\<rparr> # rest) (assign_ids ids next rs)
      else do {
        free \<leftarrow> skip_ids ids next;
        rest \<leftarrow> assign_ids ids (free + 1) rs;
        Some (r\<lparr>r_final_id := free\<rparr> # rest)
      })"

section \<open>Names and languages\<close>

text \<open>
  The inner and the outer loop over pairs of resources; \<open>strcmp\<close> on a \<open>NULL\<close> name is undefined.
  The result is the first pair with equal name and language.
\<close>

fun same_resource_in ::
    "elfrc_resource \<Rightarrow> elfrc_resource list \<Rightarrow> elfrc_resource option option" where
  "same_resource_in r [] = Some None"
| "same_resource_in r (s # rest) = do {
     a \<leftarrow> r_name r;
     b \<leftarrow> r_name s;
     if a = b \<and> r_language r = r_language s then Some (Some s) else same_resource_in r rest
   }"

fun duplicate_resource :: "elfrc_resource list \<Rightarrow> (elfrc_resource \<times> elfrc_resource) option option" where
  "duplicate_resource [] = Some None"
| "duplicate_resource (r # rest) = do {
     hit \<leftarrow> same_resource_in r rest;
     case hit of
       Some s \<Rightarrow> Some (Some (r, s))
     | None \<Rightarrow> duplicate_resource rest
   }"

definition duplicate_msg :: "elfrc_resource \<Rightarrow> elfrc_resource \<Rightarrow> string option" where
  "duplicate_msg r s = map_option (\<lambda>name. ''duplicate resource: name '' @ quoted name @ '' language ''
     @ decimal (unat (r_language s)) @ '' already defined at line '' @ decimal_int (r_line r)) (r_name s)"

section \<open>The whole pass\<close>

definition explicit_ids :: "elfrc_resource list \<Rightarrow> u32 list" where
  "explicit_ids rs = map r_id (filter r_id_explicit rs)"

definition assign_and_validate_ids ::
    "parse_ctx \<Rightarrow> elfrc_manifest \<Rightarrow> (parse_ctx \<times> elfrc_manifest) option" where
  "assign_and_validate_ids ctx m =
     (if mf_resources m = [] then Some (ctx, m)
      else let ids = sort (explicit_ids (mf_resources m)) in
        case adjacent_duplicate ids of
          Some i \<Rightarrow> fail_with ctx 0 (Some (''duplicate explicit resource id '' @ decimal (unat i))) m
        | None \<Rightarrow> do {
            rs \<leftarrow> assign_ids ids 1 (mf_resources m);
            let m = m\<lparr>mf_resources := rs\<rparr>;
            dup \<leftarrow> duplicate_resource rs;
            case dup of
              None \<Rightarrow> Some (ctx, m)
            | Some (r, s) \<Rightarrow> fail_with ctx (r_line s) (duplicate_msg r s) m
          })"

section \<open>Searching and skipping\<close>

lemma adjacent_duplicate_None: "sorted ids \<Longrightarrow> adjacent_duplicate ids = None \<longleftrightarrow> distinct ids"
  by (induction ids rule: adjacent_duplicate.induct) (auto simp: less_le)

lemma ex_left:
  "(mid :: nat) < hi \<Longrightarrow> (\<And>i. lo \<le> i \<Longrightarrow> i < hi \<Longrightarrow> P i \<Longrightarrow> i < mid)
    \<Longrightarrow> (\<exists>i. lo \<le> i \<and> i < mid \<and> P i) \<longleftrightarrow> (\<exists>i. lo \<le> i \<and> i < hi \<and> P i)"
  by (meson less_trans)

lemma ex_right:
  "(lo :: nat) \<le> mid \<Longrightarrow> (\<And>i. lo \<le> i \<Longrightarrow> i < hi \<Longrightarrow> P i \<Longrightarrow> mid < i)
    \<Longrightarrow> (\<exists>i. mid + 1 \<le> i \<and> i < hi \<and> P i) \<longleftrightarrow> (\<exists>i. lo \<le> i \<and> i < hi \<and> P i)"
  by (metis Suc_eq_plus1 Suc_leI Suc_leD le_trans)

lemma bsearch_from_iff:
  "sorted ids \<Longrightarrow> hi \<le> length ids \<Longrightarrow>
    bsearch_from key ids lo hi \<longleftrightarrow> (\<exists>i. lo \<le> i \<and> i < hi \<and> ids ! i = key)"
proof (induction key ids lo hi rule: bsearch_from.induct)
  case (1 key ids lo hi)
  let ?mid = "(lo + hi) div 2"
  have le: "ids ! i \<le> ids ! j" if "i \<le> j" "j < hi" for i j
    using 1(3,4) that by (intro sorted_nth_mono) simp_all
  consider "\<not> lo < hi" | "lo < hi" "key < ids ! ?mid" | "lo < hi" "ids ! ?mid < key"
    | "lo < hi" "ids ! ?mid = key" by fastforce
  then show ?case
  proof cases
    case 1
    then show ?thesis by (subst bsearch_from.simps) auto
  next
    case 2
    have "bsearch_from key ids lo hi = bsearch_from key ids lo ?mid"
      using 2 by (subst bsearch_from.simps) simp
    moreover have "i < ?mid" if "lo \<le> i" "i < hi" "ids ! i = key" for i
      using le [of ?mid i] 2 that by (metis not_less)
    moreover have "bsearch_from key ids lo ?mid \<longleftrightarrow> (\<exists>i. lo \<le> i \<and> i < ?mid \<and> ids ! i = key)"
      by (rule "1.IH"(1)) (use 2 "1.prems" in simp_all)
    moreover have "?mid < hi" using 2(1) by simp
    ultimately show ?thesis using ex_left [of ?mid hi lo "\<lambda>i. ids ! i = key"] by simp
  next
    case 3
    have "bsearch_from key ids lo hi = bsearch_from key ids (?mid + 1) hi"
      using 3(1) 3(2) less_not_sym [OF 3(2)] by (subst bsearch_from.simps) (simp add: Let_def)
    moreover have "?mid < i" if "lo \<le> i" "i < hi" "ids ! i = key" for i
    proof (rule ccontr)
      assume "\<not> ?mid < i"
      then have "ids ! i \<le> ids ! ?mid" using 3(1) by (intro le) simp_all
      then show False using 3(2) that(3) by simp
    qed
    moreover have "bsearch_from key ids (?mid + 1) hi \<longleftrightarrow> (\<exists>i. ?mid + 1 \<le> i \<and> i < hi \<and> ids ! i = key)"
      by (rule "1.IH"(2)) (use 3 less_not_sym [OF 3(2)] "1.prems" in simp_all)
    moreover have "lo \<le> ?mid" using 3(1) by simp
    ultimately show ?thesis using ex_right [of lo ?mid hi "\<lambda>i. ids ! i = key"] by simp
  next
    case 4
    then have "bsearch_from key ids lo hi" by (subst bsearch_from.simps) simp
    moreover have "lo \<le> ?mid" "?mid < hi" using 4(1) by simp_all
    ultimately show ?thesis using 4(2) by blast
  qed
qed

lemma bsearch_iff: "sorted ids \<Longrightarrow> bsearch key ids \<longleftrightarrow> key \<in> set ids"
  by (auto simp: bsearch_def bsearch_from_iff in_set_conv_nth)

lemma of_nat_u32_inj: "inj_on (of_nat :: nat \<Rightarrow> u32) {..< 2 ^ 32}"
  by (rule inj_on_inverseI [of _ unat]) (simp add: unat_of_nat_u32)

text \<open>Among the numbers from 1 to one more than there are taken ids, one is free.\<close>

lemma some_id_free:
  assumes "length taken + 1 < 2 ^ 32"
  shows "\<exists>i. 0 < i \<and> i \<le> length taken + 1 \<and> of_nat i \<notin> set (taken :: u32 list)"
proof (rule ccontr)
  let ?N = "{1..length taken + 1}"
  assume "\<not> ?thesis"
  then have "of_nat ` ?N \<subseteq> set taken" by auto
  then have "card ((of_nat :: nat \<Rightarrow> u32) ` ?N) \<le> card (set taken)" by (intro card_mono) simp_all
  moreover have "card ((of_nat :: nat \<Rightarrow> u32) ` ?N) = length taken + 1"
    using assms by (subst card_image) (auto intro: inj_on_subset [OF of_nat_u32_inj])
  ultimately show False using card_length [of taken] by linarith
qed

lemma skip_ids_finds:
  assumes sorted: "sorted ids" and k: "of_nat (n + k) \<notin> set ids" "n + k < 2 ^ 32"
    and before: "\<forall>j < k. of_nat (n + j) \<in> set ids"
  shows "skip_ids ids (of_nat n) = Some (of_nat (n + k))"
  using k before
proof (induction k arbitrary: n)
  case 0
  then show ?case using bsearch_iff [OF sorted] by (subst skip_ids.simps) simp
next
  case (Suc k)
  from Suc.prems(3) have "of_nat (n + 0) \<in> set ids" by blast
  then have "skip_ids ids (of_nat n) = skip_ids ids (of_nat (Suc n))"
    using bsearch_iff [OF sorted] by (subst skip_ids.simps) (simp add: add.commute)
  also have "\<dots> = Some (of_nat (Suc n + k))"
  proof (rule Suc.IH)
    show "of_nat (Suc n + k) \<notin> set ids" "Suc n + k < 2 ^ 32" using Suc.prems(1,2) by simp_all
    have "of_nat (n + Suc j) \<in> set ids" if "j < k" for j using Suc.prems(3) that by blast
    then show "\<forall>j < k. of_nat (Suc n + j) \<in> set ids" by (simp only: add_Suc_shift) simp
  qed
  finally show ?case by simp
qed

section \<open>The reference assignment\<close>

text \<open>
  The specification of the ids: every resource without an explicit id gets the smallest positive
  number that no explicit id and no earlier resource has.
\<close>

definition least_free :: "u32 list \<Rightarrow> nat" where
  "least_free taken =
     (case find (\<lambda>i. of_nat i \<notin> set taken) [1..<length taken + 2] of Some i \<Rightarrow> i | None \<Rightarrow> 0)"

fun reference_ids :: "u32 list \<Rightarrow> elfrc_resource list \<Rightarrow> u32 list" where
  "reference_ids taken [] = []"
| "reference_ids taken (r # rs) =
     (if r_id_explicit r then r_id r # reference_ids taken rs
      else let i = of_nat (least_free taken) in i # reference_ids (i # taken) rs)"

definition auto_count :: "elfrc_resource list \<Rightarrow> nat" where
  "auto_count rs = length (filter (\<lambda>r. \<not> r_id_explicit r) rs)"

lemma auto_count_simps [simp]:
  "auto_count [] = 0"
  "auto_count (r # rs) = (if r_id_explicit r then auto_count rs else Suc (auto_count rs))"
  by (simp_all add: auto_count_def)

lemma auto_count_total: "length (explicit_ids rs) + auto_count rs = length rs"
  by (induction rs) (simp_all add: explicit_ids_def)

lemma find_least:
  assumes "P i" and "a \<le> i" and "i < b"
  obtains j where "find P [a..<b] = Some j" "P j" "a \<le> j" "j \<le> i" "\<forall>l. a \<le> l \<and> l < j \<longrightarrow> \<not> P l"
proof -
  have "find P [a..<b] \<noteq> None" using assms by (auto simp: find_None_iff)
  then obtain j where f: "find P [a..<b] = Some j" by auto
  then obtain k where k: "k < b - a" "P (a + k)" "j = a + k" "\<forall>l < k. \<not> P (a + l)"
    by (auto simp: find_Some_iff)
  have first: "\<forall>l. a \<le> l \<and> l < j \<longrightarrow> \<not> P l"
    using k(3,4) by (metis add_less_cancel_left le_Suc_ex)
  then have "j \<le> i" using assms(1,2) by (metis not_less)
  then show thesis using that [OF f] k first by simp
qed

lemma least_free_spec:
  assumes "length taken + 1 < 2 ^ 32"
  shows "0 < least_free taken" "least_free taken \<le> length taken + 1"
    "of_nat (least_free taken) \<notin> set taken"
    "0 < l \<Longrightarrow> l < least_free taken \<Longrightarrow> of_nat l \<in> set taken"
proof -
  from some_id_free [OF assms] obtain i where i: "0 < i" "i \<le> length taken + 1" "of_nat i \<notin> set taken"
    by auto
  obtain j where "find (\<lambda>i. of_nat i \<notin> set taken) [1..<length taken + 2] = Some j"
    "of_nat j \<notin> set taken" "1 \<le> j" "j \<le> i" "\<forall>l. 1 \<le> l \<and> l < j \<longrightarrow> \<not> of_nat l \<notin> set taken"
    by (rule find_least [of "\<lambda>i. of_nat i \<notin> set taken" i 1 "length taken + 2"]) (use i in auto)
  then show "0 < least_free taken" "least_free taken \<le> length taken + 1"
    "of_nat (least_free taken) \<notin> set taken"
    "0 < l \<Longrightarrow> l < least_free taken \<Longrightarrow> of_nat l \<in> set taken"
    using i by (simp_all add: least_free_def)
qed


section \<open>The pass computes the reference assignment\<close>

lemma skip_ids_least_free:
  assumes sorted: "sorted ids" and room: "length taken + 1 < 2 ^ 32"
    and sub: "set ids \<subseteq> set taken" and pos: "0 < n" "n \<le> least_free taken"
    and above: "\<forall>x\<in>set taken - set ids. unat x < n"
  shows "skip_ids ids (of_nat n) = Some (of_nat (least_free taken))"
proof -
  let ?f = "least_free taken"
  note free = least_free_spec [OF room]
  obtain k where k: "?f = n + k" using pos(2) le_Suc_ex by blast
  have "of_nat (n + j) \<in> set ids" if "j < k" for j
  proof -
    have lt: "n + j < ?f" using that k by simp
    then have "of_nat (n + j) \<in> set taken" using pos(1) by (intro free(4)) simp_all
    moreover have "unat (of_nat (n + j) :: u32) = n + j"
      using lt free(2) room by (intro unat_of_nat_u32) simp
    ultimately show ?thesis using above by (metis DiffI not_add_less1)
  qed
  moreover have "of_nat (n + k) \<notin> set ids" using free(3) sub k by auto
  ultimately show ?thesis using free(2) room k by (intro skip_ids_finds [OF sorted, of n k, folded k]) simp_all
qed

lemma assign_ids_reference:
  assumes "sorted ids" and "length taken + auto_count rs + 1 < 2 ^ 32" and "set ids \<subseteq> set taken"
    and "set (explicit_ids rs) \<subseteq> set ids" and "0 < n" and "\<forall>l. 0 < l \<and> l < n \<longrightarrow> of_nat l \<in> set taken"
    and "\<forall>x\<in>set taken - set ids. unat x < n"
  shows "assign_ids ids (of_nat n) rs
    = Some (map2 (\<lambda>r i. r\<lparr>r_final_id := i\<rparr>) rs (reference_ids taken rs))"
  using assms(2-)
proof (induction rs arbitrary: n taken)
  case Nil
  then show ?case by simp
next
  case (Cons r rs)
  show ?case
  proof (cases "r_id_explicit r")
    case True
    have "assign_ids ids (of_nat n) rs
        = Some (map2 (\<lambda>r i. r\<lparr>r_final_id := i\<rparr>) rs (reference_ids taken rs))"
      using Cons.prems True by (intro Cons.IH) (auto simp: explicit_ids_def)
    then show ?thesis using True by simp
  next
    case False
    let ?f = "least_free taken"
    have room: "length taken + 1 < 2 ^ 32" using Cons.prems(1) by simp
    note free = least_free_spec [OF room]
    have "n \<le> ?f" using Cons.prems(5) free(1,3) by (metis not_less)
    then have skip: "skip_ids ids (of_nat n) = Some (of_nat ?f)"
      using Cons.prems by (intro skip_ids_least_free [OF assms(1) room]) simp_all
    have uf: "unat (of_nat ?f :: u32) = ?f" using free(2) room by (intro unat_of_nat_u32) simp
    have "assign_ids ids (of_nat (Suc ?f)) rs
        = Some (map2 (\<lambda>r i. r\<lparr>r_final_id := i\<rparr>) rs (reference_ids (of_nat ?f # taken) rs))"
    proof (rule Cons.IH)
      show "length (of_nat ?f # taken) + auto_count rs + 1 < 2 ^ 32" using Cons.prems(1) False by simp
      show "set ids \<subseteq> set (of_nat ?f # taken)" using Cons.prems(2) by auto
      show "set (explicit_ids rs) \<subseteq> set ids" using Cons.prems(3) False by (simp add: explicit_ids_def)
      show "\<forall>l. 0 < l \<and> l < Suc ?f \<longrightarrow> of_nat l \<in> set (of_nat ?f # taken)"
        using free(4) by (auto simp: less_Suc_eq)
      show "\<forall>x\<in>set (of_nat ?f # taken) - set ids. unat x < Suc ?f"
      proof
        fix x
        assume "x \<in> set (of_nat ?f # taken) - set ids"
        then consider "x = of_nat ?f" | "x \<in> set taken - set ids" by auto
        then show "unat x < Suc ?f"
        proof cases
          case 1
          then show ?thesis using uf by simp
        next
          case 2
          then have "unat x < n" using Cons.prems(6) by blast
          then show ?thesis using \<open>n \<le> ?f\<close> by simp
        qed
      qed
    qed simp
    then show ?thesis using False skip by (simp add: Let_def add.commute)
  qed
qed

lemma length_reference_ids [simp]: "length (reference_ids taken rs) = length rs"
  by (induction taken rs rule: reference_ids.induct) (simp_all add: Let_def)

lemma reference_ids_members:
  assumes "length taken + auto_count rs + 1 < 2 ^ 32" and "set (explicit_ids rs) \<subseteq> set taken"
    and "i \<in> set (reference_ids taken rs)"
  shows "i \<in> set (explicit_ids rs)
    \<or> i \<notin> set taken \<and> 0 < unat i \<and> unat i \<le> length taken + auto_count rs"
  using assms
proof (induction taken rs rule: reference_ids.induct)
  case (1 taken)
  then show ?case by simp
next
  case (2 taken r rs)
  show ?case
  proof (cases "r_id_explicit r")
    case True
    then show ?thesis using "2.IH"(1) "2.prems" by (auto simp: explicit_ids_def)
  next
    case False
    let ?f = "least_free taken"
    have room: "length taken + 1 < 2 ^ 32" using "2.prems"(1) by simp
    note free = least_free_spec [OF room]
    have uf: "unat (of_nat ?f :: u32) = ?f" using free(2) room by (intro unat_of_nat_u32) simp
    have sub: "set (explicit_ids rs) \<subseteq> set (of_nat ?f # taken)"
      using "2.prems"(2) False by (auto simp: explicit_ids_def)
    have "i = of_nat ?f \<or> i \<in> set (reference_ids (of_nat ?f # taken) rs)"
      using "2.prems"(3) False by (simp add: Let_def)
    then show ?thesis
    proof
      assume "i = of_nat ?f"
      then show ?thesis using free uf False by simp
    next
      assume "i \<in> set (reference_ids (of_nat ?f # taken) rs)"
      from "2.IH"(2) [OF False refl _ sub this] "2.prems"(1)
      show ?thesis using False by (auto simp: explicit_ids_def)
    qed
  qed
qed

lemma reference_ids_distinct:
  assumes "length taken + auto_count rs + 1 < 2 ^ 32" and "set (explicit_ids rs) \<subseteq> set taken"
    and "distinct (explicit_ids rs)"
  shows "distinct (reference_ids taken rs)"
  using assms
proof (induction taken rs rule: reference_ids.induct)
  case (1 taken)
  then show ?case by simp
next
  case (2 taken r rs)
  show ?case
  proof (cases "r_id_explicit r")
    case True
    then have "r_id r \<notin> set (reference_ids taken rs)"
      using reference_ids_members [of taken rs "r_id r"] "2.prems" by (auto simp: explicit_ids_def)
    then show ?thesis using "2.IH"(1) "2.prems" True by (simp add: explicit_ids_def)
  next
    case False
    let ?f = "of_nat (least_free taken) :: u32"
    have room: "length taken + 1 < 2 ^ 32" using "2.prems"(1) by simp
    note free = least_free_spec [OF room]
    have sub: "set (explicit_ids rs) \<subseteq> set (?f # taken)" "?f \<notin> set (explicit_ids rs)"
      using "2.prems"(2) False free(3) by (auto simp: explicit_ids_def)
    have len: "length (?f # taken) + auto_count rs + 1 < 2 ^ 32" using "2.prems"(1) False by simp
    have "?f \<notin> set (reference_ids (?f # taken) rs)"
      using reference_ids_members [OF len sub(1)] sub(2) by (meson list.set_intros(1))
    moreover have "distinct (reference_ids (?f # taken) rs)"
      using "2.prems"(3) False by (intro "2.IH"(2) [OF False refl len sub(1)]) (simp add: explicit_ids_def)
    ultimately show ?thesis using False by (simp add: Let_def)
  qed
qed

end
