(* ===== verification/Manifest_Parse.thy ===== *)
theory Manifest_Parse
  imports Manifest_Ids
begin

text \<open>
  The top level of \<open>src/elfrc/manifest_yaml.c\<close>: \<open>elfrc_manifest_parse\<close>. What \<open>fopen\<close> and libyaml
  make of the manifest file is a parameter: the file does not open, the parser cannot be set up,
  the text is no YAML, or it is a document.
\<close>

datatype yaml_load =
    YamlCannotOpen string
  | YamlInitFailed
  | YamlProblem nat "string option"
  | YamlLoaded yaml_document

definition parse_defaults :: "yaml_document \<Rightarrow> yaml_node option \<Rightarrow> defaults" where
  "parse_defaults doc defaults_n =
     (let own = (\<lambda>key def. case map_get doc defaults_n key of None \<Rightarrow> Some def | Some n \<Rightarrow> scalar_dup (Some n))
      in \<lparr>df_language = own ''language'' ''neutral'', df_compression = own ''compression'' ''none'',
          df_encryption = own ''encryption'' ''none''\<rparr>)"

definition empty_manifest :: elfrc_manifest where
  "empty_manifest = \<lparr>mf_version = 0, mf_module = None, mf_resources = []\<rparr>"

text \<open>
  From the loaded document to the end of the function: the context and the manifest at \<open>done\<close>.
\<close>

definition parse_manifest ::
    "(string \<Rightarrow> bool) \<Rightarrow> parse_ctx \<Rightarrow> (parse_ctx \<times> elfrc_manifest) option" where
  "parse_manifest is_reg ctx = do {
     let doc = pc_doc ctx;
     let root = yaml_document_get_root_node doc;
     let m = empty_manifest;
     if (case root of Some (YAML_MAPPING_NODE l pairs) \<Rightarrow> False | _ \<Rightarrow> True)
     then fail_with ctx 0 (Some (''manifest root must be a mapping with '' @ quoted ''version''
       @ '' and '' @ quoted ''resources'' @ '' keys'')) m
     else do {
       let version_n = map_get doc root ''version'';
       if version_n = None
       then fail_with ctx (node_line root)
         (Some (''manifest is missing required field '' @ quoted ''version'')) m
       else do {
         let version_s = scalar_dup version_n;
         if parse_uint version_s \<noteq> Some 1
         then fail_with ctx (node_line version_n)
           (map_option (\<lambda>s. ''unsupported manifest version '' @ quoted s @ '' (only version 1 is supported)'')
             version_s) m
         else do {
           let m = m\<lparr>mf_version := 1, mf_module := scalar_dup (map_get doc root ''module'')\<rparr>;
           let defs = parse_defaults doc (map_get doc root ''defaults'');
           case map_get doc root ''resources'' of
             Some (YAML_SEQUENCE_NODE l items) \<Rightarrow> do {
               (ctx, m) \<leftarrow> parse_resources is_reg ctx items defs m;
               if pc_failed ctx then Some (ctx, m) else assign_and_validate_ids ctx m
             }
           | _ \<Rightarrow> fail_with ctx (node_line root)
               (Some (''manifest is missing required sequence field '' @ quoted ''resources'')) m
         }
       }
     }
   }"

definition start_ctx :: "yaml_document \<Rightarrow> string \<Rightarrow> parse_ctx" where
  "start_ctx doc path =
     \<lparr>pc_doc = doc, pc_manifest_path = path, pc_manifest_dir = dirname (snprintf 4096 path),
      pc_errbuf = [], pc_failed = False\<rparr>"

text \<open>The message in \<open>errbuf\<close> with the return value -1, or the manifest with the return value 0.\<close>

definition elfrc_manifest_parse ::
    "(string \<Rightarrow> yaml_load) \<Rightarrow> (string \<Rightarrow> bool) \<Rightarrow> string \<Rightarrow> (string + elfrc_manifest) option" where
  "elfrc_manifest_parse load is_reg path =
     (case load path of
        YamlCannotOpen e \<Rightarrow>
          Some (Inl (snprintf ELFRC_ERRBUF_SIZE (path @ '': error: cannot open manifest: '' @ e)))
      | YamlInitFailed \<Rightarrow>
          Some (Inl (snprintf ELFRC_ERRBUF_SIZE (path @ '': error: failed to initialize YAML parser'')))
      | YamlProblem line problem \<Rightarrow>
          Some (Inl (snprintf ELFRC_ERRBUF_SIZE (path @ '':'' @ decimal (line + 1)
            @ '': error: YAML parse error: ''
            @ (case problem of Some p \<Rightarrow> p | None \<Rightarrow> ''malformed document''))))
      | YamlLoaded doc \<Rightarrow> do {
          (ctx, m) \<leftarrow> parse_manifest is_reg (start_ctx doc path);
          Some (if pc_failed ctx then Inl (snprintf ELFRC_ERRBUF_SIZE (pc_errbuf ctx)) else Inr m)
        })"

definition elfrc_manifest_free :: "elfrc_manifest \<Rightarrow> elfrc_manifest" where
  "elfrc_manifest_free m = empty_manifest"

end
