(* ===== verification/Byte_Buf.thy ===== *)
theory Byte_Buf
  imports Prelude
begin

text \<open>
  \<open>src/common/byte_buf.c\<close>: the growable buffer. The allocated block is a list of \<open>cap\<close>
  cells; a cell that has not been written since \<open>realloc\<close> is \<open>None\<close>. Lengths and
  capacities are 64-bit \<open>size_t\<close> values with their wrap-around. \<open>realloc\<close> itself is taken to
  succeed, as the code does not check it.
\<close>

record byte_buf =
  bb_data :: "u8 option list"
  bb_len :: u64
  bb_cap :: u64

definition byte_buf_empty :: byte_buf where
  "byte_buf_empty = \<lparr>bb_data = [], bb_len = 0, bb_cap = 0\<rparr>"

text \<open>The doubling loop of \<open>byte_buf_reserve\<close>; \<open>None\<close> when it never ends.\<close>

partial_function (option) byte_buf_grow :: "u64 \<Rightarrow> u64 \<Rightarrow> u64 option" where
  "byte_buf_grow newcap need =
     (if newcap < need then byte_buf_grow (newcap * 2) need else Some newcap)"

declare byte_buf_grow.simps [code]

definition realloc_cells :: "u8 option list \<Rightarrow> nat \<Rightarrow> u8 option list" where
  "realloc_cells d n = take n d @ replicate (n - length d) None"

definition byte_buf_reserve :: "byte_buf \<Rightarrow> u64 \<Rightarrow> byte_buf option" where
  "byte_buf_reserve b extra =
     (if bb_len b + extra \<le> bb_cap b then Some b
      else do {
        newcap \<leftarrow> byte_buf_grow (if bb_cap b \<noteq> 0 then bb_cap b * 2 else 4096) (bb_len b + extra);
        Some (b\<lparr>bb_data := realloc_cells (bb_data b) (unat newcap), bb_cap := newcap\<rparr>)
      })"

definition byte_buf_append :: "byte_buf \<Rightarrow> memory \<Rightarrow> u64 \<Rightarrow> (byte_buf \<times> u64) option" where
  "byte_buf_append b src len = do {
     b1 \<leftarrow> byte_buf_reserve b len;
     let off = bb_len b1;
     d \<leftarrow> (if len \<noteq> 0 then do {
             bytes \<leftarrow> mem_read src 0 (unat len);
             mem_write (bb_data b1) (unat off) (map Some bytes)
           } else Some (bb_data b1));
     Some (b1\<lparr>bb_data := d, bb_len := bb_len b1 + len\<rparr>, off)
   }"

definition byte_buf_append_zeros :: "byte_buf \<Rightarrow> u64 \<Rightarrow> (byte_buf \<times> u64) option" where
  "byte_buf_append_zeros b len = do {
     b1 \<leftarrow> byte_buf_reserve b len;
     let off = bb_len b1;
     d \<leftarrow> mem_write (bb_data b1) (unat off) (replicate (unat len) (Some 0));
     Some (b1\<lparr>bb_data := d, bb_len := bb_len b1 + len\<rparr>, off)
   }"

definition byte_buf_align :: "byte_buf \<Rightarrow> u64 \<Rightarrow> byte_buf option" where
  "byte_buf_align b alignment =
     (let rem = bb_len b mod alignment in
      if rem \<noteq> 0 then map_option fst (byte_buf_append_zeros b (alignment - rem)) else Some b)"

definition byte_buf_free :: "byte_buf \<Rightarrow> byte_buf" where
  "byte_buf_free b = b\<lparr>bb_data := [], bb_len := 0, bb_cap := 0\<rparr>"

text \<open>The bytes a reader of \<open>data[0..len)\<close> sees; an unwritten cell has no value to read.\<close>

definition byte_buf_bytes :: "byte_buf \<Rightarrow> memory option" where
  "byte_buf_bytes b = those (take (unat (bb_len b)) (bb_data b))"

text \<open>\<open>memcpy(buf.data + off, bytes, ...)\<close> into the block.\<close>

definition byte_buf_poke :: "byte_buf \<Rightarrow> u64 \<Rightarrow> u8 list \<Rightarrow> byte_buf option" where
  "byte_buf_poke b off bytes = do {
     d \<leftarrow> mem_write (bb_data b) (unat off) (map Some bytes);
     Some (b\<lparr>bb_data := d\<rparr>)
   }"

section \<open>The representation\<close>

text \<open>
  \<open>holds b bs\<close>: the block is as large as its capacity, which is zero or a power of two that
  the doubling reaches from 4096 within 64 bits, and its first \<open>len\<close> cells are the bytes
  \<open>bs\<close>.
\<close>

definition cap_ok :: "u64 \<Rightarrow> bool" where
  "cap_ok c \<longleftrightarrow> c = 0 \<or> (\<exists>k. 12 \<le> k \<and> k \<le> 63 \<and> unat c = 2 ^ k)"

definition holds :: "byte_buf \<Rightarrow> u8 list \<Rightarrow> bool" where
  "holds b bs \<longleftrightarrow>
     length (bb_data b) = unat (bb_cap b) \<and> cap_ok (bb_cap b)
     \<and> unat (bb_len b) = length bs \<and> length bs \<le> unat (bb_cap b)
     \<and> take (length bs) (bb_data b) = map Some bs"

lemma holds_len: "holds b bs \<Longrightarrow> bb_len b = of_nat (length bs)"
proof -
  assume "holds b bs"
  then have "of_nat (length bs) = (of_nat (unat (bb_len b)) :: u64)" by (simp add: holds_def)
  then show ?thesis by simp
qed

lemma two_power_63: "k \<le> 63 \<Longrightarrow> (2 :: nat) ^ k \<le> 2 ^ 63"
  by (rule power_increasing) auto

lemma holds_bound: "holds b bs \<Longrightarrow> length bs \<le> 2 ^ 63"
proof -
  assume h: "holds b bs"
  then have "unat (bb_cap b) \<le> 2 ^ 63"
    using two_power_63 by (auto simp: holds_def cap_ok_def)
  with h show ?thesis by (simp add: holds_def)
qed

lemma those_map_Some: "those (map Some bs) = Some bs"
  by (induction bs) auto

lemma holds_bytes: "holds b bs \<Longrightarrow> byte_buf_bytes b = Some bs"
  by (simp add: holds_def byte_buf_bytes_def those_map_Some)

lemma holds_empty: "holds byte_buf_empty []"
  by (simp add: holds_def byte_buf_empty_def cap_ok_def)

section \<open>The interface of an appendable buffer\<close>

text \<open>
  What the writers of the compiler rely on: appending adds the given bytes at the end and
  returns where they start, as long as the contents stay below a limit. The length of the
  contents is the buffer's own length field.
\<close>

definition pad_to :: "nat \<Rightarrow> nat \<Rightarrow> nat" where
  "pad_to a n = (if n mod a = 0 then 0 else a - n mod a)"

lemma pad_to_less: "0 < a \<Longrightarrow> pad_to a n < a"
  by (auto simp: pad_to_def)

lemma pad_to_aligned: "0 < a \<Longrightarrow> (n + pad_to a n) mod a = 0"
proof -
  assume a: "0 < a"
  show ?thesis
  proof (cases "n mod a = 0")
    case False
    have "n mod a < a" using a by simp
    then have "n + (a - n mod a) = n div a * a + a"
      using div_mult_mod_eq [of n a] by linarith
    with False show ?thesis by (simp add: pad_to_def)
  qed (simp add: pad_to_def)
qed

locale byte_sink =
  fixes append :: "'b \<Rightarrow> memory \<Rightarrow> u64 \<Rightarrow> ('b \<times> u64) option"
    and append_zeros :: "'b \<Rightarrow> u64 \<Rightarrow> ('b \<times> u64) option"
    and len_of :: "'b \<Rightarrow> u64"
    and contents :: "'b \<Rightarrow> u8 list \<Rightarrow> bool"
    and limit :: nat
  assumes append_spec:
      "contents b bs \<Longrightarrow> unat n \<le> length src \<Longrightarrow> length bs + unat n \<le> limit \<Longrightarrow>
         \<exists>b'. append b src n = Some (b', len_of b) \<and> contents b' (bs @ take (unat n) src)"
    and append_zeros_spec:
      "contents b bs \<Longrightarrow> length bs + unat n \<le> limit \<Longrightarrow>
         \<exists>b'. append_zeros b n = Some (b', len_of b) \<and> contents b' (bs @ zeros (unat n))"
    and len_spec: "contents b bs \<Longrightarrow> len_of b = of_nat (length bs)"
    and limit_u64: "limit < 2 ^ 64"
begin

text \<open>Appending a whole object of known size, the way the code passes \<open>sizeof\<close>.\<close>

lemma append_whole:
  assumes "contents b bs" and "unat n = length src" and "length bs + length src \<le> limit"
  obtains b' where "append b src n = Some (b', of_nat (length bs))" "contents b' (bs @ src)"
  using append_spec [OF assms(1), of n src] len_spec [OF assms(1)] assms(2,3) by auto

lemma zeros_whole:
  assumes "contents b bs" and "length bs + unat n \<le> limit"
  obtains b' where "append_zeros b n = Some (b', of_nat (length bs))"
    "contents b' (bs @ zeros (unat n))"
  using append_zeros_spec [OF assms(1), of n] len_spec [OF assms(1)] assms(2) by auto

text \<open>Alignment by appended zeros.\<close>

lemma align_contents:
  assumes c: "contents b bs" and a: "0 < unat a" and le: "length bs + unat a \<le> limit"
  shows "\<exists>b'. (let rem = len_of b mod a in
      if rem \<noteq> 0 then map_option fst (append_zeros b (a - rem)) else Some b) = Some b'
    \<and> contents b' (bs @ zeros (pad_to (unat a) (length bs)))"
proof -
  let ?rem = "len_of b mod a"
  have "unat (len_of b) = length bs"
    using len_spec [OF c] le limit_u64 by (simp add: unat_of_nat_u64)
  then have rem: "unat ?rem = length bs mod unat a" by (simp add: unat_mod_distrib)
  show ?thesis
  proof (cases "?rem = 0")
    case True
    then have "length bs mod unat a = 0" using rem by simp
    with True c show ?thesis by (simp add: pad_to_def zeros_def)
  next
    case False
    then have nz: "length bs mod unat a \<noteq> 0" using rem by (metis unat_eq_zero)
    have "?rem \<le> a" using a rem by (simp add: word_le_nat_alt less_imp_le)
    then have diff: "unat (a - ?rem) = unat a - length bs mod unat a"
      using rem by (simp add: unat_sub)
    then have "length bs + unat (a - ?rem) \<le> limit" using le by simp
    from append_zeros_spec [OF c this] diff nz False show ?thesis
      by (auto simp: pad_to_def Let_def)
  qed
qed

end

section \<open>Growing\<close>

lemma grow_power:
  assumes "unat c = 2 ^ k" and "k \<le> 63" and "unat need \<le> 2 ^ 63"
  shows "\<exists>c' j. byte_buf_grow c need = Some c' \<and> k \<le> j \<and> j \<le> 63 \<and> unat c' = 2 ^ j \<and> need \<le> c'"
  using assms
proof (induction "63 - k" arbitrary: c k)
  case 0
  then have "\<not> c < need" by (simp add: word_less_nat_alt)
  with 0 show ?case by (subst byte_buf_grow.simps) (auto simp: not_less)
next
  case (Suc d)
  show ?case
  proof (cases "c < need")
    case False
    with Suc.prems show ?thesis by (subst byte_buf_grow.simps) (auto simp: not_less)
  next
    case True
    have k: "k < 63" using Suc.hyps(2) by simp
    then have "(2 :: nat) ^ Suc k < 2 ^ 64" by (intro power_strict_increasing) auto
    then have double: "unat (c * 2) = 2 ^ Suc k"
      using Suc.prems(1) by (simp add: unat_word_ariths mult.commute)
    have d: "d = 63 - Suc k" using Suc.hyps(2) by simp
    from Suc.hyps(1) [OF d double] k Suc.prems(3) obtain c' j where 
      "byte_buf_grow (c * 2) need = Some c'" "Suc k \<le> j" "j \<le> 63"
      "unat c' = 2 ^ j" "need \<le> c'" by auto
    with True show ?thesis by (subst byte_buf_grow.simps) auto
  qed
qed

text \<open>Beyond half the address space the capacity doubles to zero and the loop never ends.\<close>

lemma grow_zero: "need \<noteq> 0 \<Longrightarrow> byte_buf_grow 0 need = None"
proof (rule ccontr)
  assume need: "need \<noteq> 0" and "byte_buf_grow 0 need \<noteq> None"
  then obtain r where ret: "byte_buf_grow 0 need = Some r" by auto
  have "0 = (0 :: u64) \<longrightarrow> need = 0"
  proof (rule byte_buf_grow.raw_induct [where P = "\<lambda>c n r. c = 0 \<longrightarrow> n = 0", OF _ ret])
    fix f c n r
    assume "\<And>c n r. f c n = Some r \<Longrightarrow> c = (0 :: u64) \<longrightarrow> n = (0 :: u64)"
      and "(if c < n then f (c * 2) n else Some c) = Some r"
    then show "c = 0 \<longrightarrow> n = 0" by (auto split: if_splits simp: not_less)
  qed
  with need show False by simp
qed

lemma grow_diverges:
  assumes "unat c = 2 ^ k" and "k \<le> 63" and "2 ^ 63 < unat need"
  shows "byte_buf_grow c need = None"
  using assms
proof (induction "63 - k" arbitrary: c k)
  case 0
  then have c: "unat c = 2 ^ 63" by simp
  then have "c < need" using 0 by (simp add: word_less_nat_alt)
  moreover have "c * 2 = 0"
    using c by (simp add: unat_eq_zero [symmetric] unat_word_ariths del: unat_eq_zero)
  moreover have "need \<noteq> 0" using 0 by auto
  ultimately show ?case by (subst byte_buf_grow.simps) (simp add: grow_zero)
next
  case (Suc d)
  have k: "k < 63" using Suc.hyps(2) by simp
  then have "(2 :: nat) ^ Suc k < 2 ^ 64" by (intro power_strict_increasing) auto
  then have double: "unat (c * 2) = 2 ^ Suc k"
    using Suc.prems(1) by (simp add: unat_word_ariths mult.commute)
  have "(2 :: nat) ^ k \<le> 2 ^ 63" using k by (intro power_increasing) auto
  then have "c < need" using Suc.prems by (simp add: word_less_nat_alt)
  moreover have "byte_buf_grow (c * 2) need = None"
  proof -
    have d: "d = 63 - Suc k" using Suc.hyps(2) by simp
    from Suc.hyps(1) [OF d double] k Suc.prems(3) show ?thesis by simp
  qed
  ultimately show ?case by (subst byte_buf_grow.simps) simp
qed

section \<open>The operations\<close>

lemma take_realloc: "n \<le> length d \<Longrightarrow> n \<le> m \<Longrightarrow> take n (realloc_cells d m) = take n d"
  by (simp add: realloc_cells_def min_def)

lemma length_realloc [simp]: "length (realloc_cells d m) = m"
  by (simp add: realloc_cells_def)

lemma start_cap_power:
  assumes "cap_ok cap" and "cap < need" and "unat need \<le> 2 ^ 63"
  shows "\<exists>k. unat (if cap \<noteq> 0 then cap * 2 else 4096) = 2 ^ k \<and> 12 \<le> k \<and> k \<le> 63"
proof (cases "cap = 0")
  case True
  then show ?thesis by (intro exI [of _ 12]) simp
next
  case False
  with assms(1) obtain k where k: "12 \<le> k" "k \<le> 63" "unat cap = 2 ^ k"
    by (auto simp: cap_ok_def)
  have "k < 63"
  proof (rule ccontr)
    assume "\<not> k < 63"
    with k have "unat cap = 2 ^ 63" by (cases "k = 63") auto
    with assms(2,3) show False by (simp add: word_less_nat_alt)
  qed
  then have "(2 :: nat) ^ Suc k < 2 ^ 64" by (intro power_strict_increasing) auto
  then have "unat (cap * 2) = 2 ^ Suc k"
    using k(3) by (simp add: unat_word_ariths mult.commute)
  with False \<open>k < 63\<close> k(1) show ?thesis by (intro exI [of _ "Suc k"]) simp
qed

lemma grow_start_diverges:
  assumes "cap_ok cap" and big: "2 ^ 63 < unat need"
  shows "byte_buf_grow (if cap \<noteq> 0 then cap * 2 else 4096) need = None"
proof (cases "cap = 0")
  case True
  then show ?thesis using grow_diverges [of 4096 12 need] big by simp
next
  case False
  with assms(1) obtain k where k: "k \<le> 63" "unat cap = 2 ^ k"
    by (auto simp: cap_ok_def)
  have "cap < need"
    using k two_power_63 [of k] big by (simp add: word_less_nat_alt)
  moreover have "byte_buf_grow cap need = None" using k big by (intro grow_diverges)
  ultimately show ?thesis using False by (subst (asm) byte_buf_grow.simps) simp
qed

lemma reserve_holds:
  assumes h: "holds b bs" and le: "length bs + unat extra \<le> 2 ^ 63"
  shows "\<exists>b'. byte_buf_reserve b extra = Some b' \<and> holds b' bs \<and> bb_len b' = bb_len b
    \<and> length bs + unat extra \<le> unat (bb_cap b')"
proof -
  from h have len: "unat (bb_len b) = length bs" by (simp add: holds_def)
  have need: "unat (bb_len b + extra) = length bs + unat extra"
    using le len by (subst unat_add_u64) simp_all
  show ?thesis
  proof (cases "bb_len b + extra \<le> bb_cap b")
    case True
    with h need show ?thesis by (auto simp: byte_buf_reserve_def word_le_nat_alt)
  next
    case False
    then have less: "bb_cap b < bb_len b + extra" by simp
    from h have "cap_ok (bb_cap b)" by (simp add: holds_def)
    from start_cap_power [OF this less] need le obtain k where
      k: "unat (if bb_cap b \<noteq> 0 then bb_cap b * 2 else 4096) = 2 ^ k" "12 \<le> k" "k \<le> 63" by auto
    from grow_power [OF k(1,3), of "bb_len b + extra"] need le obtain c j where
      c: "byte_buf_grow (if bb_cap b \<noteq> 0 then bb_cap b * 2 else 4096) (bb_len b + extra) = Some c"
        "k \<le> j" "j \<le> 63" "unat c = 2 ^ j" "bb_len b + extra \<le> c" by auto
    have room: "length bs + unat extra \<le> unat c" using c(5) need by (simp add: word_le_nat_alt)
    have "length bs \<le> length (bb_data b)" using h by (simp add: holds_def)
    then have "take (length bs) (realloc_cells (bb_data b) (unat c)) = map Some bs"
      using h room by (subst take_realloc) (simp_all add: holds_def)
    moreover have "cap_ok c" using c k(2) by (auto simp: cap_ok_def intro!: exI [of _ j])
    ultimately have "holds (b\<lparr>bb_data := realloc_cells (bb_data b) (unat c), bb_cap := c\<rparr>) bs"
      using h room by (simp add: holds_def)
    with False c(1) room show ?thesis by (simp add: byte_buf_reserve_def)
  qed
qed

lemma mem_write_holds:
  assumes h: "holds b bs" and room: "length bs + length xs \<le> unat (bb_cap b)"
  shows "\<exists>d. mem_write (bb_data b) (unat (bb_len b)) (map Some xs) = Some d
    \<and> holds (b\<lparr>bb_data := d, bb_len := bb_len b + of_nat (length xs)\<rparr>) (bs @ xs)"
proof -
  have cap: "unat (bb_cap b) \<le> 2 ^ 63"
    using h two_power_63 by (auto simp: holds_def cap_ok_def)
  have len: "unat (bb_len b) = length bs" using h by (simp add: holds_def)
  have "length bs + length xs \<le> length (bb_data b)" using h room by (simp add: holds_def)
  then obtain d where d: "mem_write (bb_data b) (unat (bb_len b)) (map Some xs) = Some d"
    using len by (auto simp: mem_write_def)
  then have dd: "d = take (length bs) (bb_data b) @ map Some xs
      @ drop (length bs + length xs) (bb_data b)" and dl: "length d = length (bb_data b)"
    using len by (auto simp: mem_write_eq_Some)
  have "unat (bb_len b + of_nat (length xs)) = length bs + length xs"
    using room cap len by (subst unat_add_u64) (simp_all add: unat_of_nat_u64)
  moreover have "take (length (bs @ xs)) d = map Some (bs @ xs)"
    using h by (simp add: dd holds_def)
  ultimately show ?thesis
    using h room d dl by (auto simp: holds_def)
qed

lemma append_holds:
  assumes h: "holds b bs" and src: "unat len \<le> length src"
    and le: "length bs + unat len \<le> 2 ^ 63"
  shows "\<exists>b'. byte_buf_append b src len = Some (b', bb_len b) \<and> holds b' (bs @ take (unat len) src)"
proof -
  from reserve_holds [OF h le] obtain b1 where b1: "byte_buf_reserve b len = Some b1"
    "holds b1 bs" "bb_len b1 = bb_len b" "length bs + unat len \<le> unat (bb_cap b1)" by auto
  show ?thesis
  proof (cases "len = 0")
    case True
    with b1 show ?thesis by (auto simp: byte_buf_append_def)
  next
    case False
    have xs: "length (take (unat len) src) = unat len" using src by simp
    from mem_write_holds [OF b1(2), of "take (unat len) src"] b1(4) xs
    obtain d where "mem_write (bb_data b1) (unat (bb_len b1)) (map Some (take (unat len) src)) = Some d"
      "holds (b1\<lparr>bb_data := d, bb_len := bb_len b1 + len\<rparr>) (bs @ take (unat len) src)" by auto
    with False b1(1,3) src show ?thesis
      by (auto simp: byte_buf_append_def mem_read_def Let_def)
  qed
qed

lemma append_zeros_holds:
  assumes h: "holds b bs" and le: "length bs + unat len \<le> 2 ^ 63"
  shows "\<exists>b'. byte_buf_append_zeros b len = Some (b', bb_len b) \<and> holds b' (bs @ zeros (unat len))"
proof -
  from reserve_holds [OF h le] obtain b1 where b1: "byte_buf_reserve b len = Some b1"
    "holds b1 bs" "bb_len b1 = bb_len b" "length bs + unat len \<le> unat (bb_cap b1)" by auto
  from mem_write_holds [OF b1(2), of "zeros (unat len)"] b1(4) obtain d where
    "mem_write (bb_data b1) (unat (bb_len b1)) (map Some (zeros (unat len))) = Some d"
    "holds (b1\<lparr>bb_data := d, bb_len := bb_len b1 + len\<rparr>) (bs @ zeros (unat len))" by auto
  with b1(1,3) show ?thesis by (auto simp: byte_buf_append_zeros_def zeros_def Let_def)
qed

lemma poke_holds:
  assumes h: "holds b bs" and w: "mem_write bs (unat off) xs = Some bs'"
  shows "\<exists>b'. byte_buf_poke b off xs = Some b' \<and> holds b' bs' \<and> bb_len b' = bb_len b"
proof -
  from w have le: "unat off + length xs \<le> length bs"
    and bs': "bs' = take (unat off) bs @ xs @ drop (unat off + length xs) bs"
    by (auto simp: mem_write_eq_Some)
  from h have data: "take (length bs) (bb_data b) = map Some bs"
    and room: "length bs \<le> length (bb_data b)" by (auto simp: holds_def)
  then have split: "bb_data b = map Some bs @ drop (length bs) (bb_data b)"
    by (metis append_take_drop_id)
  have "mem_write (bb_data b) (unat off) (map Some xs) = Some (map Some bs' @ drop (length bs) (bb_data b))"
    using le by (subst (1 2) split) (simp add: mem_write_def bs' take_map drop_map)
  moreover have "length bs' = length bs" using w by (rule mem_write_length)
  ultimately show ?thesis
    using h room by (auto simp: byte_buf_poke_def holds_def)
qed

interpretation buf: byte_sink byte_buf_append byte_buf_append_zeros bb_len holds "2 ^ 63"
  by unfold_locales
    (use append_holds append_zeros_holds holds_len in \<open>auto\<close>)

lemma align_holds:
  assumes "holds b bs" and "0 < unat a" and "length bs + unat a \<le> 2 ^ 63"
  obtains b' where "byte_buf_align b a = Some b'"
    "holds b' (bs @ zeros (pad_to (unat a) (length bs)))"
  using buf.align_contents [OF assms] by (auto simp: byte_buf_align_def)

text \<open>
  C28. \<open>byte_buf_reserve\<close> ends exactly when the requested length fits half the address space:
  from any buffer the program can hold, with \<open>len + extra\<close> not wrapping, the doubling loop
  returns if and only if \<open>len + extra\<close> is at most \<open>2 ^ 63\<close> (beyond it the capacity doubles
  to zero and the loop runs forever).
\<close>

theorem byte_buf_reserve_returns_iff:
  assumes "holds b bs" and "length bs + unat extra < 2 ^ 64"
  shows "(\<exists>b'. byte_buf_reserve b extra = Some b') \<longleftrightarrow> length bs + unat extra \<le> 2 ^ 63"
proof
  assume "length bs + unat extra \<le> 2 ^ 63"
  from reserve_holds [OF assms(1) this] show "\<exists>b'. byte_buf_reserve b extra = Some b'"
    by auto
next
  assume ret: "\<exists>b'. byte_buf_reserve b extra = Some b'"
  show "length bs + unat extra \<le> 2 ^ 63"
  proof (rule ccontr)
    assume "\<not> ?thesis"
    moreover have "unat (bb_len b + extra) = length bs + unat extra"
      using assms by (subst unat_add_u64) (simp_all add: holds_def)
    ultimately have big: "2 ^ 63 < unat (bb_len b + extra)" by simp
    from assms(1) have cap: "cap_ok (bb_cap b)" by (simp add: holds_def)
    then have "unat (bb_cap b) \<le> 2 ^ 63" using two_power_63 by (auto simp: cap_ok_def)
    with big have more: "\<not> bb_len b + extra \<le> bb_cap b" by (simp add: word_le_nat_alt)
    have "byte_buf_grow (if bb_cap b \<noteq> 0 then bb_cap b * 2 else 4096) (bb_len b + extra) = None"
      using cap big by (rule grow_start_diverges)
    with more ret show False by (simp add: byte_buf_reserve_def)
  qed
qed

theorem byte_buf_reserve_returns_iff_witness:
  "(\<exists>b'. byte_buf_reserve byte_buf_empty 0x8000000000000001 = Some b')
     \<longleftrightarrow> length ([] :: u8 list) + unat (0x8000000000000001 :: u64) \<le> 2 ^ 63"
  by (rule byte_buf_reserve_returns_iff [OF holds_empty]) simp

text \<open>
  C25. Functional correctness of the buffer: below the limit, appending \<open>len\<close> bytes of a
  source object returns the old length as the offset and leaves exactly the old bytes followed
  by the source's bytes; appending zeros and aligning leave the old bytes followed by zeros, the
  aligned length being a multiple of the alignment.
\<close>

theorem byte_buf_operations_correct:
  assumes "holds b bs" and "unat len \<le> length src" and "length bs + unat len \<le> 2 ^ 63"
    and "0 < unat a" and "length bs + unat a \<le> 2 ^ 63"
  shows "(\<exists>b'. byte_buf_append b src len = Some (b', of_nat (length bs))
        \<and> byte_buf_bytes b' = Some (bs @ take (unat len) src) \<and> holds b' (bs @ take (unat len) src))
    \<and> (\<exists>b'. byte_buf_append_zeros b len = Some (b', of_nat (length bs))
        \<and> byte_buf_bytes b' = Some (bs @ zeros (unat len)) \<and> holds b' (bs @ zeros (unat len)))
    \<and> (\<exists>b' k. byte_buf_align b a = Some b' \<and> byte_buf_bytes b' = Some (bs @ zeros k)
        \<and> k < unat a \<and> (length bs + k) mod unat a = 0 \<and> holds b' (bs @ zeros k))"
proof (intro conjI)
  show "\<exists>b'. byte_buf_append b src len = Some (b', of_nat (length bs))
      \<and> byte_buf_bytes b' = Some (bs @ take (unat len) src) \<and> holds b' (bs @ take (unat len) src)"
    using append_holds [OF assms(1,2,3)] by (auto simp: holds_bytes holds_len [OF assms(1)])
  show "\<exists>b'. byte_buf_append_zeros b len = Some (b', of_nat (length bs))
      \<and> byte_buf_bytes b' = Some (bs @ zeros (unat len)) \<and> holds b' (bs @ zeros (unat len))"
    using append_zeros_holds [OF assms(1,3)] by (auto simp: holds_bytes holds_len [OF assms(1)])
  from assms(1,4,5) obtain b' where "byte_buf_align b a = Some b'"
    "holds b' (bs @ zeros (pad_to (unat a) (length bs)))" by (rule align_holds)
  then show "\<exists>b' k. byte_buf_align b a = Some b' \<and> byte_buf_bytes b' = Some (bs @ zeros k)
      \<and> k < unat a \<and> (length bs + k) mod unat a = 0 \<and> holds b' (bs @ zeros k)"
    using pad_to_less [OF assms(4)] pad_to_aligned [OF assms(4)] holds_bytes by blast
qed

theorem byte_buf_operations_correct_witness:
  "(\<exists>b'. byte_buf_append byte_buf_empty [1, 2, 3] 2 = Some (b', of_nat (length ([] :: u8 list)))
      \<and> byte_buf_bytes b' = Some ([] @ take (unat (2 :: u64)) [1, 2, 3])
      \<and> holds b' ([] @ take (unat (2 :: u64)) [1, 2, 3]))
    \<and> (\<exists>b'. byte_buf_append_zeros byte_buf_empty 2 = Some (b', of_nat (length ([] :: u8 list)))
      \<and> byte_buf_bytes b' = Some ([] @ zeros (unat (2 :: u64)))
      \<and> holds b' ([] @ zeros (unat (2 :: u64))))
    \<and> (\<exists>b' k. byte_buf_align byte_buf_empty 8 = Some b' \<and> byte_buf_bytes b' = Some ([] @ zeros k)
      \<and> k < unat (8 :: u64) \<and> (length ([] :: u8 list) + k) mod unat (8 :: u64) = 0
      \<and> holds b' ([] @ zeros k))"
  by (rule byte_buf_operations_correct [OF holds_empty]) simp_all

end
