(* ===== verification/Crc64.thy ===== *)
theory Crc64
  imports Byte_Digest
begin

text \<open>
  \<open>src/common/crc64.c\<close>: the lookup table filled by the constructor and the table-driven
  checksum. The reference is the bit-at-a-time shift register of CRC-64/XZ.
\<close>

definition CRC64_POLY :: u64 where
  "CRC64_POLY = 0xC96C5795D7870F42"

definition crc64_shift :: "u64 \<Rightarrow> u64" where
  "crc64_shift c = (if c AND 1 \<noteq> 0 then CRC64_POLY XOR drop_bit 1 c else drop_bit 1 c)"

fun crc64_shifts :: "nat \<Rightarrow> u64 \<Rightarrow> u64" where
  "crc64_shifts 0 c = c"
| "crc64_shifts (Suc k) c = crc64_shifts k (crc64_shift c)"

definition crc64_table :: "u64 list" where
  "crc64_table = map (\<lambda>i. crc64_shifts 8 (of_nat i)) [0..<256]"

definition crc64_update :: "u64 \<Rightarrow> u8 \<Rightarrow> u64" where
  "crc64_update crc p = crc64_table ! unat ((crc XOR ucast p) AND 0xFF) XOR drop_bit 8 crc"

definition elfr_crc64 :: "u8 list \<Rightarrow> u64" where
  "elfr_crc64 p = foldl crc64_update 0xFFFFFFFFFFFFFFFF p XOR 0xFFFFFFFFFFFFFFFF"

section \<open>The shift register\<close>

definition crc64_bitwise_update :: "u64 \<Rightarrow> u8 \<Rightarrow> u64" where
  "crc64_bitwise_update crc p = crc64_shifts 8 (crc XOR ucast p)"

definition crc64_bitwise :: "u8 list \<Rightarrow> u64" where
  "crc64_bitwise p = foldl crc64_bitwise_update 0xFFFFFFFFFFFFFFFF p XOR 0xFFFFFFFFFFFFFFFF"

lemma and_1_neq_0: "(c AND 1 \<noteq> 0) = bit (c :: u64) 0"
  by (simp add: and_one_eq bit_0 odd_iff_mod_2_eq_one)

lemma crc64_shift_bit: "crc64_shift c = (if bit c 0 then CRC64_POLY XOR drop_bit 1 c else drop_bit 1 c)"
  by (simp add: crc64_shift_def and_1_neq_0)

lemma crc64_shift_xor: "crc64_shift (a XOR b) = crc64_shift a XOR crc64_shift b"
  by (simp add: crc64_shift_bit bit_xor_iff xor.assoc xor.left_commute xor.commute)

lemma crc64_shifts_xor: "crc64_shifts n (a XOR b) = crc64_shifts n a XOR crc64_shifts n b"
  by (induction n arbitrary: a b) (simp_all add: crc64_shift_xor)

lemma crc64_shifts_add: "crc64_shifts (m + n) c = crc64_shifts n (crc64_shifts m c)"
  by (induction m arbitrary: c) simp_all

text \<open>Zero bits shifted out leave the register a plain right shift.\<close>

lemma crc64_shifts_zeros:
  "(\<And>i. i < n \<Longrightarrow> \<not> bit c i) \<Longrightarrow> crc64_shifts n c = drop_bit n c"
proof (induction n arbitrary: c)
  case 0
  then show ?case by simp
next
  case (Suc n)
  have "\<not> bit c 0" using Suc.prems by simp
  then have "crc64_shift c = drop_bit 1 c" by (simp add: crc64_shift_bit)
  moreover have "crc64_shifts n (drop_bit 1 c) = drop_bit n (drop_bit 1 c)"
    by (rule Suc.IH) (simp add: bit_drop_bit_eq Suc.prems)
  ultimately show ?case by simp
qed

text \<open>The register loses nothing: the top bit of the polynomial records the bit shifted out.\<close>

lemma crc64_shift_eq_0: "crc64_shift c = 0 \<Longrightarrow> c = 0"
proof -
  assume z: "crc64_shift c = 0"
  have poly: "bit CRC64_POLY 63" by (simp add: CRC64_POLY_def)
  have top: "\<not> bit (drop_bit 1 c) 63"
    using bit_imp_le_length [of c 64] by (auto simp: bit_drop_bit_eq)
  have low: "\<not> bit c 0"
  proof
    assume "bit c 0"
    with z have "bit (CRC64_POLY XOR drop_bit 1 c) 63 = bit (0 :: u64) 63"
      by (simp add: crc64_shift_bit)
    with poly top show False by (simp add: bit_xor_iff)
  qed
  with z have d: "drop_bit 1 c = 0" by (simp add: crc64_shift_bit)
  show "c = 0"
  proof (rule bit_word_eqI)
    fix n
    show "bit c n = bit 0 n"
    proof (cases n)
      case 0
      with low show ?thesis by simp
    next
      case (Suc m)
      have "bit (drop_bit 1 c) m = bit 0 m" using d by simp
      then show ?thesis by (simp add: Suc bit_drop_bit_eq)
    qed
  qed
qed

lemma crc64_shifts_eq_0: "crc64_shifts n c = 0 \<Longrightarrow> c = 0"
  by (induction n arbitrary: c) (auto dest: crc64_shift_eq_0)

lemma crc64_shifts_inject: "crc64_shifts n a = crc64_shifts n b \<Longrightarrow> a = b"
proof -
  assume "crc64_shifts n a = crc64_shifts n b"
  then have "crc64_shifts n (a XOR b) = 0" by (simp add: crc64_shifts_xor)
  then have "a XOR b = 0" by (rule crc64_shifts_eq_0)
  moreover have "a XOR (a XOR b) = b" by (simp flip: xor.assoc)
  ultimately show "a = b" by simp
qed

section \<open>The table is the shift register\<close>

lemma crc64_table_nth: "i < 256 \<Longrightarrow> crc64_table ! i = crc64_shifts 8 (of_nat i)"
  by (simp add: crc64_table_def)

lemma unat_low_byte: "unat (x AND 0xFF :: u64) < 256"
  using word_and_le1 [where a = "0xFF :: u64" and y = x] by (simp add: word_le_nat_alt)

lemma drop_bit_8_ucast: "drop_bit 8 (ucast (p :: u8) :: u64) = 0"
proof (rule bit_word_eqI)
  fix n
  have "\<not> bit p (8 + n)" using bit_imp_le_length [of p "8 + n"] by auto
  then show "bit (drop_bit 8 (ucast p :: u64)) n = bit 0 n"
    by (simp add: bit_drop_bit_eq bit_ucast_iff)
qed

lemma low_high_split: "x = (x AND m) XOR (x AND NOT (m :: u64))"
  by (rule bit_word_eqI) (auto simp: bit_simps)

lemma crc64_shifts_8: "crc64_shifts 8 x = crc64_shifts 8 (x AND 0xFF) XOR drop_bit 8 x"
proof -
  let ?h = "x AND NOT (0xFF :: u64)"
  have mask: "(0xFF :: u64) = mask 8" by (simp add: mask_eq_exp_minus_1)
  have "crc64_shifts 8 ?h = drop_bit 8 ?h"
    by (rule crc64_shifts_zeros) (simp add: mask bit_simps)
  also have "\<dots> = drop_bit 8 x"
    using bit_imp_le_length [of x] by (intro bit_word_eqI) (fastforce simp: mask bit_simps)
  finally have high: "crc64_shifts 8 ?h = drop_bit 8 x" .
  have "crc64_shifts 8 x = crc64_shifts 8 ((x AND 0xFF) XOR ?h)"
    by (simp only: low_high_split [of x "0xFF", symmetric])
  also have "\<dots> = crc64_shifts 8 (x AND 0xFF) XOR crc64_shifts 8 ?h"
    by (rule crc64_shifts_xor)
  finally show ?thesis by (simp only: high)
qed

lemma crc64_update_bitwise: "crc64_update crc p = crc64_bitwise_update crc p"
proof -
  have "drop_bit 8 (crc XOR ucast p) = drop_bit 8 crc"
    by (simp add: drop_bit_xor drop_bit_8_ucast)
  then show ?thesis
    by (simp add: crc64_update_def crc64_bitwise_update_def crc64_table_nth [OF unat_low_byte]
        crc64_shifts_8 [of "crc XOR ucast p"])
qed

lemma crc64_update_eq: "crc64_update = crc64_bitwise_update"
  by (intro ext) (rule crc64_update_bitwise)

lemma crc64_eval: "elfr_crc64 = crc64_bitwise"
  by (intro ext) (simp only: elfr_crc64_def crc64_bitwise_def crc64_update_eq)


section \<open>Error detection\<close>

lemma crc64_bitwise_update_inject_state:
  "crc64_bitwise_update a p = crc64_bitwise_update b p \<Longrightarrow> a = b"
proof -
  assume "crc64_bitwise_update a p = crc64_bitwise_update b p"
  then have "a XOR ucast p = b XOR ucast p"
    unfolding crc64_bitwise_update_def by (rule crc64_shifts_inject)
  then show "a = b" by (rule xor_cancel_right)
qed

lemma crc64_bitwise_update_inject_byte:
  "crc64_bitwise_update a p = crc64_bitwise_update a q \<Longrightarrow> p = q"
proof -
  assume "crc64_bitwise_update a p = crc64_bitwise_update a q"
  then have "a XOR ucast p = a XOR ucast q"
    unfolding crc64_bitwise_update_def by (rule crc64_shifts_inject)
  then have "(ucast p :: u64) = ucast q" by (rule xor_cancel_left)
  then show "p = q" by (rule ucast_u8_u64_inject)
qed

interpretation crc64: byte_digest crc64_update "0xFFFFFFFFFFFFFFFF" "\<lambda>c. c XOR 0xFFFFFFFFFFFFFFFF"
proof unfold_locales
  show "a = b" if "crc64_update a p = crc64_update b p" for a b p
    using that by (simp add: crc64_update_bitwise crc64_bitwise_update_inject_state)
  show "p = q" if "crc64_update a p = crc64_update a q" for a p q
    using that by (simp add: crc64_update_bitwise crc64_bitwise_update_inject_byte)
  show "a = b" if "a XOR 0xFFFFFFFFFFFFFFFF = b XOR 0xFFFFFFFFFFFFFFFF" for a b :: u64
    using that by (rule xor_cancel_right)
qed

lemma elfr_crc64_digest: "elfr_crc64 = crc64.digest"
  by (intro ext) (simp add: elfr_crc64_def crc64.digest_def)

text \<open>
  Up to eight bytes enter the register as one word: the register after the bytes \<open>u\<close> is
  the starting register, xored with the bytes in little-endian order and shifted through.
\<close>

definition crc64_block :: "u8 list \<Rightarrow> u64" where
  "crc64_block u = of_nat (le_decode u)"

lemma crc64_block_bits: "length r \<le> 7 \<Longrightarrow> bit (crc64_block r) n \<Longrightarrow> n < 56"
proof -
  assume len: "length r \<le> 7" and bit: "bit (crc64_block r) n"
  have "le_decode r < 256 ^ length r" by (rule le_decode_bound)
  also have "\<dots> \<le> 256 ^ 7" using len by (intro power_increasing) auto
  finally have "take_bit 56 (le_decode r) = le_decode r" by (simp add: take_bit_nat_eq_self)
  then have "bit (take_bit 56 (le_decode r)) n"
    using bit by (simp add: crc64_block_def bit_of_nat_iff)
  then show "n < 56" by (simp add: bit_take_bit_iff)
qed

lemma crc64_block_Cons:
  assumes "length r \<le> 7"
  shows "crc64_block (p # r) = ucast p XOR push_bit 8 (crc64_block r)"
proof -
  have disj: "ucast p AND push_bit 8 (crc64_block r) = 0"
    using bit_imp_le_length [of p] by (intro bit_word_eqI) (fastforce simp: bit_simps)
  have "crc64_block (p # r) = ucast p + push_bit 8 (crc64_block r)"
    by (simp add: crc64_block_def push_bit_eq_mult mult.commute)
  also have "\<dots> = ucast p XOR push_bit 8 (crc64_block r)"
    using disj by (rule disjunctive_add_eq_xor)
  finally show ?thesis .
qed

lemma crc64_shifts_block:
  assumes "length r \<le> 7"
  shows "crc64_shifts 8 (push_bit 8 (crc64_block r)) = crc64_block r"
proof -
  have "crc64_shifts 8 (push_bit 8 (crc64_block r)) = drop_bit 8 (push_bit 8 (crc64_block r))"
    by (rule crc64_shifts_zeros) (simp add: bit_simps)
  also have "\<dots> = crc64_block r"
    using crc64_block_bits [OF assms] by (intro bit_word_eqI) (fastforce simp: bit_simps)
  finally show ?thesis .
qed

lemma crc64_bitwise_foldl:
  "length u \<le> 8 \<Longrightarrow>
     foldl crc64_bitwise_update s u = crc64_shifts (8 * length u) (s XOR crc64_block u)"
proof (induction u arbitrary: s)
  case Nil
  then show ?case by (simp add: crc64_block_def)
next
  case (Cons p r)
  then have r: "length r \<le> 7" by simp
  have "foldl crc64_bitwise_update s (p # r)
      = crc64_shifts (8 * length r) (crc64_shifts 8 (s XOR ucast p) XOR crc64_block r)"
    using Cons r by (simp add: crc64_bitwise_update_def [of s p])
  also have "crc64_shifts 8 (s XOR ucast p) XOR crc64_block r
      = crc64_shifts 8 (s XOR crc64_block (p # r))"
    by (simp add: crc64_block_Cons [OF r] crc64_shifts_xor crc64_shifts_block [OF r] flip: xor.assoc)
  finally show ?case by (simp add: crc64_shifts_add)
qed

lemma crc64_block_inject:
  assumes "length u = length v" and "length u \<le> 8" and "crc64_block u = crc64_block v"
  shows "u = v"
proof -
  have bound: "le_decode w < 2 ^ 64" if "length w \<le> 8" for w
  proof -
    have "le_decode w < 256 ^ length w" by (rule le_decode_bound)
    also have "(256 :: nat) ^ length w \<le> 256 ^ 8" using that by (intro power_increasing) auto
    finally show ?thesis by simp
  qed
  have "le_decode u = le_decode v"
    using assms bound [of u] bound [of v] by (metis crc64_block_def unat_of_nat_u64)
  then show ?thesis using assms(1) by (metis le_encode_decode)
qed

lemma elfr_crc64_burst:
  assumes "length u = length v" and "length u \<le> 8" and "u \<noteq> v"
  shows "elfr_crc64 (xs @ u @ ys) \<noteq> elfr_crc64 (xs @ v @ ys)"
proof
  assume "elfr_crc64 (xs @ u @ ys) = elfr_crc64 (xs @ v @ ys)"
  then obtain s where "foldl crc64_update s u = foldl crc64_update s v"
    using crc64.digest_middle [of xs u ys v] by (auto simp: elfr_crc64_digest)
  then have "crc64_shifts (8 * length u) (s XOR crc64_block u)
      = crc64_shifts (8 * length u) (s XOR crc64_block v)"
    using crc64_bitwise_foldl [of u s] crc64_bitwise_foldl [of v s] assms(1,2)
    by (simp only: crc64_update_eq)
  then have "crc64_block u = crc64_block v"
    by (rule xor_cancel_left [OF crc64_shifts_inject])
  with assms(1,2) have "u = v" by (rule crc64_block_inject)
  with assms(3) show False ..
qed

text \<open>
  C27. The checksum detects every change confined to eight consecutive bytes: replacing a
  run of at most eight bytes by a different run of the same length, anywhere in a buffer of
  any size, changes \<open>elfr_crc64\<close>.
\<close>

theorem elfr_crc64_detects_burst:
  assumes "length u = length v" and "length u \<le> 8" and "u \<noteq> v"
  shows "elfr_crc64 (xs @ u @ ys) \<noteq> elfr_crc64 (xs @ v @ ys)"
  using assms by (rule elfr_crc64_burst)

theorem elfr_crc64_detects_burst_witness:
  "elfr_crc64 ([1, 2] @ [3, 4, 5] @ [6]) \<noteq> elfr_crc64 ([1, 2] @ [5, 4, 3] @ [6])"
  by (rule elfr_crc64_detects_burst) simp_all

text \<open>
  Evaluation in the kernel: the rules fire on numerals only, so that every register is a
  numeral before it is used again.
\<close>

lemma crc64_shift_numeral:
  "crc64_shift (numeral n) =
     (if (numeral n :: u64) AND 1 \<noteq> 0 then CRC64_POLY XOR drop_bit 1 (numeral n)
      else drop_bit 1 (numeral n))"
  by (simp add: crc64_shift_def)

lemma crc64_bitwise_update_unrolled:
  "crc64_bitwise_update c p =
     crc64_shift (crc64_shift (crc64_shift (crc64_shift (crc64_shift (crc64_shift (crc64_shift
       (crc64_shift (c XOR ucast p))))))))"
  by (simp add: crc64_bitwise_update_def eval_nat_numeral)

lemmas crc64_eval_simps = crc64_bitwise_update_unrolled [of "numeral n" for n]
  crc64_shift_numeral CRC64_POLY_def

text \<open>The standard check value, as the unit test of the program has it.\<close>

lemma elfr_crc64_check: "elfr_crc64 (bytes_of ''123456789'') = 0x995DC9BBDF1939FA"
proof -
  have "elfr_crc64 (bytes_of ''123456789'')
      = foldl crc64_bitwise_update 0xFFFFFFFFFFFFFFFF [49, 50, 51, 52, 53, 54, 55, 56, 57]
        XOR 0xFFFFFFFFFFFFFFFF"
    by (simp add: crc64_eval crc64_bitwise_def bytes_of_def)
  also have "\<dots> = 0x995DC9BBDF1939FA"
    by (simp add: crc64_eval_simps)
  finally show ?thesis .
qed

end
