(* ===== verification/Container_Build.thy ===== *)
theory Container_Build
  imports Manifest_Types Erf_Format Byte_Buf Crc64 Fnv1a
begin

text \<open>
  \<open>src/elfrc/container_build.c\<close>: the resource container in memory. The sections are appended
  to one growable buffer in the order of the file (header and directory as zero placeholders,
  string table, metadata table, hash table, resource data) and the placeholders are patched at
  the end.
\<close>

section \<open>String table\<close>

record string_entry =
  se_name :: string
  se_offset :: u32

type_synonym string_table = "string_entry list"

definition string_table_intern ::
    "string_table \<Rightarrow> byte_buf \<Rightarrow> u32 \<Rightarrow> string \<Rightarrow> (string_table \<times> byte_buf \<times> u32) option" where
  "string_table_intern st buf table_base name =
     (case find (\<lambda>e. se_name e = name) st of
        Some e \<Rightarrow> Some (st, buf, se_offset e)
      | None \<Rightarrow> do {
          let off = ucast (ucast table_base + (bb_len buf - ucast table_base));
          (buf1, _) \<leftarrow> byte_buf_append buf (cstr name) (of_nat (length name) + 1);
          Some (st @ [\<lparr>se_name = name, se_offset = off\<rparr>], buf1, off)
        })"

fun intern_names ::
    "string_table \<Rightarrow> byte_buf \<Rightarrow> u32 \<Rightarrow> elfrc_resource list \<Rightarrow> (string_table \<times> byte_buf \<times> u32 list) option"
  where
  "intern_names st buf table_base [] = Some (st, buf, [])"
| "intern_names st buf table_base (r # rs) = do {
     name \<leftarrow> r_name r;
     (st1, buf1, off) \<leftarrow> string_table_intern st buf table_base name;
     (st2, buf2, offs) \<leftarrow> intern_names st1 buf1 table_base rs;
     Some (st2, buf2, off # offs)
   }"

section \<open>Metadata table\<close>

fun append_metadata_pairs :: "byte_buf \<Rightarrow> elfrc_metadata_kv list \<Rightarrow> byte_buf option" where
  "append_metadata_pairs buf [] = Some buf"
| "append_metadata_pairs buf (kv # kvs) = do {
     let klen = (of_nat (length (m_key kv)) :: u32);
     let vlen = (of_nat (length (m_value kv)) :: u32);
     (buf1, _) \<leftarrow> byte_buf_append buf (put32 klen) 4;
     (buf2, _) \<leftarrow> byte_buf_append buf1 (cstr (m_key kv)) (ucast (klen + 1));
     (buf3, _) \<leftarrow> byte_buf_append buf2 (put32 vlen) 4;
     (buf4, _) \<leftarrow> byte_buf_append buf3 (cstr (m_value kv)) (ucast (vlen + 1));
     append_metadata_pairs buf4 kvs
   }"

fun append_metadata ::
    "byte_buf \<Rightarrow> bool \<Rightarrow> elfrc_resource list \<Rightarrow> (byte_buf \<times> bool \<times> u64 list) option" where
  "append_metadata buf any_metadata [] = Some (buf, any_metadata, [])"
| "append_metadata buf any_metadata (r # rs) =
     (if r_metadata r = [] then do {
        (buf', any', offs) \<leftarrow> append_metadata buf any_metadata rs;
        Some (buf', any', 0 # offs)
      } else do {
        buf1 \<leftarrow> byte_buf_align buf 8;
        let off = bb_len buf1;
        (buf2, _) \<leftarrow> byte_buf_append buf1 (put32 (of_nat (length (r_metadata r)))) 4;
        buf3 \<leftarrow> append_metadata_pairs buf2 (r_metadata r);
        (buf', any', offs) \<leftarrow> append_metadata buf3 True rs;
        Some (buf', any', off # offs)
      })"

section \<open>Hash table\<close>

text \<open>The doubling of \<open>next_pow2\<close> in 32 bits; \<open>None\<close> when it never ends.\<close>

partial_function (option) next_pow2_loop :: "u32 \<Rightarrow> u32 \<Rightarrow> u32 option" where
  "next_pow2_loop p v = (if p < v then next_pow2_loop (p * 2) v else Some p)"

declare next_pow2_loop.simps [code]

definition next_pow2 :: "u32 \<Rightarrow> u32 option" where
  "next_pow2 v = next_pow2_loop 16 v"

definition empty_bucket :: ERFHashBucket where
  "empty_bucket = \<lparr>b_hash = 0, b_directory_index = ERF_HASH_EMPTY, b_reserved0 = 0\<rparr>"

text \<open>The linear probe for a free bucket; \<open>None\<close> when every bucket is taken.\<close>

partial_function (option) probe_free :: "ERFHashBucket list \<Rightarrow> u32 \<Rightarrow> u32 \<Rightarrow> u32 option" where
  "probe_free buckets bucket_count slot =
     (if b_directory_index (buckets ! unat slot) \<noteq> ERF_HASH_EMPTY
      then probe_free buckets bucket_count ((slot + 1) mod bucket_count)
      else Some slot)"

declare probe_free.simps [code]

definition hash_insert ::
    "ERFHashBucket list \<Rightarrow> u32 \<Rightarrow> u64 \<Rightarrow> u32 \<Rightarrow> ERFHashBucket list option" where
  "hash_insert buckets bucket_count h i = do {
     slot \<leftarrow> probe_free buckets bucket_count (ucast (h mod ucast bucket_count));
     Some (buckets[unat slot :=
       (buckets ! unat slot)\<lparr>b_hash := h, b_directory_index := i\<rparr>])
   }"

fun hash_fill ::
    "ERFHashBucket list \<Rightarrow> u32 \<Rightarrow> nat \<Rightarrow> elfrc_resource list \<Rightarrow> (ERFHashBucket list \<times> u64 list) option"
  where
  "hash_fill buckets bucket_count i [] = Some (buckets, [])"
| "hash_fill buckets bucket_count i (r # rs) = do {
     name \<leftarrow> r_name r;
     let h = elfr_fnv1a64 (bytes_of name);
     buckets1 \<leftarrow> hash_insert buckets bucket_count h (of_nat i);
     (buckets2, hs) \<leftarrow> hash_fill buckets1 bucket_count (Suc i) rs;
     Some (buckets2, h # hs)
   }"

section \<open>Resource data\<close>

datatype build_error =
    CannotOpenForReading string string
  | ShortRead string string

record data_place =
  p_offset :: u64
  p_size :: u64
  p_checksum :: u64

fun append_data ::
    "file_system \<Rightarrow> byte_buf \<Rightarrow> elfrc_resource list
      \<Rightarrow> (build_error + byte_buf \<times> data_place list) option" where
  "append_data fs buf [] = Some (Inr (buf, []))"
| "append_data fs buf (r # rs) = do {
     name \<leftarrow> r_name r;
     file \<leftarrow> r_file r;
     case fs file of
       None \<Rightarrow> Some (Inl (CannotOpenForReading name file))
     | Some f \<Rightarrow>
         let fsize = of_size f;
             filedata = (if fsize > 0 then fread f (nat fsize) else []);
             got = (of_nat (length filedata) :: u64)
         in if got \<noteq> of_int fsize then Some (Inl (ShortRead name file))
            else do {
              buf1 \<leftarrow> byte_buf_align buf 16;
              let off = bb_len buf1;
              let crc = elfr_crc64 (take (nat fsize) filedata);
              (buf2, _) \<leftarrow> byte_buf_append buf1 filedata (of_int fsize);
              rest \<leftarrow> append_data fs buf2 rs;
              Some (case rest of
                  Inl e \<Rightarrow> Inl e
                | Inr (buf', places) \<Rightarrow>
                    Inr (buf', \<lparr>p_offset = off, p_size = of_int fsize, p_checksum = crc\<rparr> # places))
            }
   }"

section \<open>Directory and header\<close>

definition directory_entry ::
    "elfrc_resource \<Rightarrow> u32 \<Rightarrow> u64 \<Rightarrow> u64 \<Rightarrow> data_place \<Rightarrow> ERFDirectoryEntry" where
  "directory_entry r name_offset metadata_offset name_hash place =
     \<lparr>d_id = r_final_id r, d_type = r_type r, d_language = r_language r, d_flags = r_flags r,
      d_name_offset = name_offset, d_reserved0 = 0,
      d_data_offset = p_offset place, d_data_size = p_size place, d_original_size = p_size place,
      d_metadata_offset = metadata_offset, d_hash = name_hash, d_checksum = p_checksum place,
      d_timestamp = 0, d_reserved = replicate 6 0\<rparr>"

fun directory_entries ::
    "elfrc_resource list \<Rightarrow> u32 list \<Rightarrow> u64 list \<Rightarrow> u64 list \<Rightarrow> data_place list
      \<Rightarrow> ERFDirectoryEntry list" where
  "directory_entries (r # rs) (no # nos) (mo # mos) (h # hs) (p # ps) =
     directory_entry r no mo h p # directory_entries rs nos mos hs ps"
| "directory_entries rs nos mos hs ps = []"

text \<open>Some resource has the name of an earlier one.\<close>

fun repeats_name :: "elfrc_resource list \<Rightarrow> elfrc_resource list \<Rightarrow> bool" where
  "repeats_name earlier [] = False"
| "repeats_name earlier (r # rs) =
     (list_ex (\<lambda>q. r_name q = r_name r) earlier \<or> repeats_name (earlier @ [r]) rs)"

definition container_header ::
    "u64 \<Rightarrow> bool \<Rightarrow> bool \<Rightarrow> u64 \<Rightarrow> u64 \<Rightarrow> u64 \<Rightarrow> u64 \<Rightarrow> u64 \<Rightarrow> u64 \<Rightarrow> ERFHeader" where
  "container_header n any_metadata localized directory_offset string_offset metadata_offset_hdr
       hash_table_offset data_offset_hdr total_size =
     \<lparr>h_magic = ERF_MAGIC,
      h_version_major = ERF_VERSION_MAJOR,
      h_version_minor = ERF_VERSION_MINOR,
      h_header_size = of_nat sizeof_ERFHeader,
      h_flags = ERF_HFLAG_HASH_TABLE_PRESENT
        OR (if any_metadata then ERF_HFLAG_METADATA_PRESENT else 0)
        OR (if localized then ERF_HFLAG_LOCALIZED else 0),
      h_resource_count = ucast n,
      h_directory_entry_size = of_nat sizeof_ERFDirectoryEntry,
      h_reserved0 = 0,
      h_directory_offset = directory_offset,
      h_string_offset = string_offset,
      h_metadata_offset = metadata_offset_hdr,
      h_hash_table_offset = hash_table_offset,
      h_signature_offset = 0,
      h_data_offset = data_offset_hdr,
      h_total_size = total_size,
      h_checksum = 0,
      h_reserved = replicate 8 0\<rparr>"

definition finish_header :: "byte_buf \<Rightarrow> ERFHeader \<Rightarrow> byte_buf option" where
  "finish_header buf header = do {
     buf1 \<leftarrow> byte_buf_poke buf 0 (put_header header);
     bytes \<leftarrow> byte_buf_bytes buf1;
     byte_buf_poke buf1 0 (put_header (header\<lparr>h_checksum := elfr_crc64 bytes\<rparr>))
   }"

section \<open>The whole container\<close>

record elfrc_container =
  ec_data :: memory
  ec_size :: u64

definition append_hash_table ::
    "byte_buf \<Rightarrow> u64 \<Rightarrow> elfrc_resource list \<Rightarrow> (byte_buf \<times> u64 list) option" where
  "append_hash_table buf n rs = do {
     bc \<leftarrow> next_pow2 (ucast (n * 2));
     let bucket_count = (if n = 0 then 16 else bc);
     (buf1, _) \<leftarrow> byte_buf_append buf
       (put_hash_header \<lparr>t_bucket_count = bucket_count, t_reserved0 = 0\<rparr>) 8;
     (buckets, hs) \<leftarrow> hash_fill (replicate (unat bucket_count) empty_bucket) bucket_count 0 rs;
     (buf2, _) \<leftarrow> byte_buf_append buf1 (concat (map put_bucket buckets)) (ucast bucket_count * 16);
     Some (buf2, hs)
   }"

text \<open>The last part of \<open>elfrc_container_build\<close>: the placeholders are overwritten.\<close>

definition container_finish ::
    "elfrc_resource list \<Rightarrow> byte_buf \<Rightarrow> u32 list \<Rightarrow> u64 list \<Rightarrow> u64 list \<Rightarrow> data_place list \<Rightarrow> bool
      \<Rightarrow> u64 \<Rightarrow> u64 \<Rightarrow> u64 \<Rightarrow> u64 \<Rightarrow> u64 \<Rightarrow> elfrc_container option" where
  "container_finish rs buf name_offsets metadata_offsets name_hashes places any_metadata
       directory_offset string_offset metadata_offset_hdr hash_table_offset data_offset_hdr = do {
     let entries = directory_entries rs name_offsets metadata_offsets name_hashes places;
     buf \<leftarrow> byte_buf_poke buf directory_offset (concat (map put_entry entries));
     let header = container_header (of_nat (length rs)) any_metadata (repeats_name [] rs)
       directory_offset string_offset metadata_offset_hdr hash_table_offset data_offset_hdr (bb_len buf);
     buf \<leftarrow> finish_header buf header;
     data \<leftarrow> byte_buf_bytes buf;
     Some \<lparr>ec_data = data, ec_size = bb_len buf\<rparr>
   }"

definition elfrc_container_build ::
    "file_system \<Rightarrow> elfrc_manifest \<Rightarrow> (build_error + elfrc_container) option" where
  "elfrc_container_build fs m = do {
     let rs = mf_resources m;
     let n = (of_nat (length rs) :: u64);
     (buf, _) \<leftarrow> byte_buf_append_zeros byte_buf_empty (of_nat sizeof_ERFHeader);
     let directory_offset = bb_len buf;
     (buf, _) \<leftarrow> byte_buf_append_zeros buf (n * of_nat sizeof_ERFDirectoryEntry);
     buf \<leftarrow> byte_buf_align buf 8;
     let string_offset = bb_len buf;
     (strtab, buf, name_offsets) \<leftarrow> intern_names [] buf (ucast string_offset) rs;
     buf \<leftarrow> byte_buf_align buf 8;
     let metadata_table_start = bb_len buf;
     (buf, any_metadata, metadata_offsets) \<leftarrow> append_metadata buf False rs;
     let metadata_offset_hdr = (if any_metadata then metadata_table_start else 0);
     buf \<leftarrow> byte_buf_align buf 8;
     let hash_table_offset = bb_len buf;
     (buf, name_hashes) \<leftarrow> append_hash_table buf n rs;
     buf \<leftarrow> byte_buf_align buf 16;
     let data_offset_hdr = bb_len buf;
     res \<leftarrow> append_data fs buf rs;
     case res of
       Inl e \<Rightarrow> Some (Inl e)
     | Inr (buf, places) \<Rightarrow>
         map_option Inr (container_finish rs buf name_offsets metadata_offsets name_hashes places
           any_metadata directory_offset string_offset metadata_offset_hdr hash_table_offset
           data_offset_hdr)
   }"

definition elfrc_container_free :: "elfrc_container \<Rightarrow> elfrc_container" where
  "elfrc_container_free c = c\<lparr>ec_data := [], ec_size := 0\<rparr>"

end
