(* ===== verification/Elf_Format.thy ===== *)
theory Elf_Format
  imports Codec
begin

text \<open>
  The part of \<open><elf.h>\<close> that compiler and dump tool use: the ELF64 file header, section header
  and symbol as records with their layout in memory, and the constants.
\<close>

record Elf64_Ehdr =
  e_ident :: "u8 list"
  e_type :: u16
  e_machine :: u16
  e_version :: u32
  e_entry :: u64
  e_phoff :: u64
  e_shoff :: u64
  e_flags :: u32
  e_ehsize :: u16
  e_phentsize :: u16
  e_phnum :: u16
  e_shentsize :: u16
  e_shnum :: u16
  e_shstrndx :: u16

record Elf64_Shdr =
  sh_name :: u32
  sh_type :: u32
  sh_flags :: u64
  sh_addr :: u64
  sh_offset :: u64
  sh_size :: u64
  sh_link :: u32
  sh_info :: u32
  sh_addralign :: u64
  sh_entsize :: u64

record Elf64_Sym =
  st_name :: u32
  st_info :: u8
  st_other :: u8
  st_shndx :: u16
  st_value :: u64
  st_size :: u64

definition sizeof_Elf64_Ehdr :: nat where "sizeof_Elf64_Ehdr = 64"
definition sizeof_Elf64_Shdr :: nat where "sizeof_Elf64_Shdr = 64"
definition sizeof_Elf64_Sym :: nat where "sizeof_Elf64_Sym = 24"

lemmas sizeof_elf = sizeof_Elf64_Ehdr_def sizeof_Elf64_Shdr_def sizeof_Elf64_Sym_def

definition ELFMAG :: "u8 list" where "ELFMAG = [0x7f, 0x45, 0x4c, 0x46]"
definition EI_CLASS :: nat where "EI_CLASS = 4"
definition EI_DATA :: nat where "EI_DATA = 5"
definition ELFCLASS64 :: u8 where "ELFCLASS64 = 2"
definition ELFDATA2LSB :: u8 where "ELFDATA2LSB = 1"
definition EV_CURRENT :: u8 where "EV_CURRENT = 1"
definition ELFOSABI_NONE :: u8 where "ELFOSABI_NONE = 0"
definition ET_REL :: u16 where "ET_REL = 1"
definition EM_X86_64 :: u16 where "EM_X86_64 = 62"
definition SHT_PROGBITS :: u32 where "SHT_PROGBITS = 1"
definition SHT_SYMTAB :: u32 where "SHT_SYMTAB = 2"
definition SHT_STRTAB :: u32 where "SHT_STRTAB = 3"
definition SHF_ALLOC :: u64 where "SHF_ALLOC = 2"
definition STB_GLOBAL :: u8 where "STB_GLOBAL = 1"
definition STT_OBJECT :: u8 where "STT_OBJECT = 1"
definition STV_DEFAULT :: u8 where "STV_DEFAULT = 0"

definition ELF64_ST_INFO :: "u8 \<Rightarrow> u8 \<Rightarrow> u8" where
  "ELF64_ST_INFO b t = push_bit 4 b + (t AND 0xf)"

lemmas elf_constants = ELFMAG_def EI_CLASS_def EI_DATA_def ELFCLASS64_def ELFDATA2LSB_def EV_CURRENT_def
  ELFOSABI_NONE_def ET_REL_def EM_X86_64_def SHT_PROGBITS_def SHT_SYMTAB_def SHT_STRTAB_def SHF_ALLOC_def
  STB_GLOBAL_def STT_OBJECT_def STV_DEFAULT_def ELF64_ST_INFO_def

section \<open>Layout in memory\<close>

definition put_ehdr :: "Elf64_Ehdr \<Rightarrow> u8 list" where
  "put_ehdr h =
     e_ident h @ put16 (e_type h) @ put16 (e_machine h) @ put32 (e_version h)
     @ put64 (e_entry h) @ put64 (e_phoff h) @ put64 (e_shoff h) @ put32 (e_flags h)
     @ put16 (e_ehsize h) @ put16 (e_phentsize h) @ put16 (e_phnum h)
     @ put16 (e_shentsize h) @ put16 (e_shnum h) @ put16 (e_shstrndx h)"

definition get_ehdr :: "u8 list \<Rightarrow> Elf64_Ehdr" where
  "get_ehdr bs =
     \<lparr>e_ident = field bs 0 16, e_type = get16 (field bs 16 2), e_machine = get16 (field bs 18 2),
      e_version = get32 (field bs 20 4), e_entry = get64 (field bs 24 8),
      e_phoff = get64 (field bs 32 8), e_shoff = get64 (field bs 40 8),
      e_flags = get32 (field bs 48 4), e_ehsize = get16 (field bs 52 2),
      e_phentsize = get16 (field bs 54 2), e_phnum = get16 (field bs 56 2),
      e_shentsize = get16 (field bs 58 2), e_shnum = get16 (field bs 60 2),
      e_shstrndx = get16 (field bs 62 2)\<rparr>"

definition put_shdr :: "Elf64_Shdr \<Rightarrow> u8 list" where
  "put_shdr s =
     put32 (sh_name s) @ put32 (sh_type s) @ put64 (sh_flags s) @ put64 (sh_addr s)
     @ put64 (sh_offset s) @ put64 (sh_size s) @ put32 (sh_link s) @ put32 (sh_info s)
     @ put64 (sh_addralign s) @ put64 (sh_entsize s)"

definition get_shdr :: "u8 list \<Rightarrow> Elf64_Shdr" where
  "get_shdr bs =
     \<lparr>sh_name = get32 (field bs 0 4), sh_type = get32 (field bs 4 4), sh_flags = get64 (field bs 8 8),
      sh_addr = get64 (field bs 16 8), sh_offset = get64 (field bs 24 8), sh_size = get64 (field bs 32 8),
      sh_link = get32 (field bs 40 4), sh_info = get32 (field bs 44 4),
      sh_addralign = get64 (field bs 48 8), sh_entsize = get64 (field bs 56 8)\<rparr>"

definition put_sym :: "Elf64_Sym \<Rightarrow> u8 list" where
  "put_sym s = put32 (st_name s) @ [st_info s, st_other s] @ put16 (st_shndx s)
     @ put64 (st_value s) @ put64 (st_size s)"

definition get_sym :: "u8 list \<Rightarrow> Elf64_Sym" where
  "get_sym bs =
     \<lparr>st_name = get32 (field bs 0 4), st_info = hd (field bs 4 1), st_other = hd (field bs 5 1),
      st_shndx = get16 (field bs 6 2), st_value = get64 (field bs 8 8), st_size = get64 (field bs 16 8)\<rparr>"

definition ehdr_ok :: "Elf64_Ehdr \<Rightarrow> bool" where
  "ehdr_ok h \<longleftrightarrow> length (e_ident h) = 16"

interpretation ehdr_codec: codec put_ehdr get_ehdr ehdr_ok sizeof_Elf64_Ehdr
  by unfold_locales
    (auto simp: put_ehdr_def get_ehdr_def ehdr_ok_def field_simps_struct sizeof_elf)

interpretation shdr_codec: codec put_shdr get_shdr "\<lambda>_. True" sizeof_Elf64_Shdr
  by unfold_locales
    (auto simp: put_shdr_def get_shdr_def field_simps_struct sizeof_elf)

interpretation sym_codec: codec put_sym get_sym "\<lambda>_. True" sizeof_Elf64_Sym
  by unfold_locales
    (auto simp: put_sym_def get_sym_def field_def sizeof_elf)

end
