(* ===== verification/Elf_Writer.thy ===== *)
theory Elf_Writer
  imports Container_Build Elf_Format
begin

text \<open>
  \<open>src/elfrc/elf_writer.c\<close>: the relocatable object file that carries the container in a
  \<open>.resource\<close> section between two global symbols.
\<close>

definition SEC_RESOURCE :: nat where "SEC_RESOURCE = 1"
definition SEC_SYMTAB :: nat where "SEC_SYMTAB = 2"
definition SEC_STRTAB :: nat where "SEC_STRTAB = 3"
definition SEC_SHSTRTAB :: nat where "SEC_SHSTRTAB = 4"
definition SEC_COUNT :: nat where "SEC_COUNT = 5"

lemmas sec_defs = SEC_RESOURCE_def SEC_SYMTAB_def SEC_STRTAB_def SEC_SHSTRTAB_def SEC_COUNT_def

text \<open>\<open>snprintf\<close> into 256 bytes keeps the first 255 characters.\<close>

definition snprintf256 :: "string \<Rightarrow> string" where
  "snprintf256 s = take 255 s"

definition symbol_names :: "string option \<Rightarrow> string \<times> string" where
  "symbol_names symbol_prefix =
     (case symbol_prefix of
        Some p \<Rightarrow>
          if p \<noteq> [] then
            (snprintf256 (''_elfr_'' @ p @ ''_resource_start''), snprintf256 (''_elfr_'' @ p @ ''_resource_end''))
          else (''_elfr_resource_start'', ''_elfr_resource_end'')
      | None \<Rightarrow> (''_elfr_resource_start'', ''_elfr_resource_end''))"

definition append_string :: "byte_buf \<Rightarrow> string \<Rightarrow> (byte_buf \<times> u64) option" where
  "append_string buf s = byte_buf_append buf (cstr s) (of_nat (length s) + 1)"

fun append_strings :: "byte_buf \<Rightarrow> string list \<Rightarrow> (byte_buf \<times> u64 list) option" where
  "append_strings buf [] = Some (buf, [])"
| "append_strings buf (s # ss) = do {
     (buf1, off) \<leftarrow> append_string buf s;
     (buf2, offs) \<leftarrow> append_strings buf1 ss;
     Some (buf2, off # offs)
   }"

text \<open>A string table: the empty string at index 0, then the given strings.\<close>

definition build_strtab :: "string list \<Rightarrow> (byte_buf \<times> u64 list) option" where
  "build_strtab ss = do {
     (buf, _) \<leftarrow> byte_buf_append_zeros byte_buf_empty 1;
     append_strings buf ss
   }"

definition null_sym :: Elf64_Sym where
  "null_sym = \<lparr>st_name = 0, st_info = 0, st_other = 0, st_shndx = 0, st_value = 0, st_size = 0\<rparr>"

definition boundary_sym :: "u64 \<Rightarrow> u64 \<Rightarrow> Elf64_Sym" where
  "boundary_sym name_off val =
     \<lparr>st_name = ucast name_off, st_info = ELF64_ST_INFO STB_GLOBAL STT_OBJECT, st_other = STV_DEFAULT,
      st_shndx = of_nat SEC_RESOURCE, st_value = val, st_size = 0\<rparr>"

definition null_shdr :: Elf64_Shdr where
  "null_shdr =
     \<lparr>sh_name = 0, sh_type = 0, sh_flags = 0, sh_addr = 0, sh_offset = 0, sh_size = 0, sh_link = 0,
      sh_info = 0, sh_addralign = 0, sh_entsize = 0\<rparr>"

definition resource_shdr :: "u64 \<Rightarrow> u64 \<Rightarrow> u64 \<Rightarrow> Elf64_Shdr" where
  "resource_shdr name off sz = null_shdr
     \<lparr>sh_name := ucast name, sh_type := SHT_PROGBITS, sh_flags := SHF_ALLOC, sh_addr := 0,
      sh_offset := off, sh_size := sz, sh_link := 0, sh_info := 0, sh_addralign := 16, sh_entsize := 0\<rparr>"

definition symtab_shdr :: "u64 \<Rightarrow> u64 \<Rightarrow> Elf64_Shdr" where
  "symtab_shdr name off = null_shdr
     \<lparr>sh_name := ucast name, sh_type := SHT_SYMTAB, sh_flags := 0, sh_offset := off,
      sh_size := of_nat (3 * sizeof_Elf64_Sym), sh_link := of_nat SEC_STRTAB, sh_info := 1,
      sh_addralign := 8, sh_entsize := of_nat sizeof_Elf64_Sym\<rparr>"

definition strtab_shdr :: "u64 \<Rightarrow> u64 \<Rightarrow> u64 \<Rightarrow> Elf64_Shdr" where
  "strtab_shdr name off sz = null_shdr
     \<lparr>sh_name := ucast name, sh_type := SHT_STRTAB, sh_offset := off, sh_size := sz,
      sh_addralign := 1\<rparr>"

definition object_ehdr :: "u64 \<Rightarrow> Elf64_Ehdr" where
  "object_ehdr shoff =
     \<lparr>e_ident = ELFMAG @ [ELFCLASS64, ELFDATA2LSB, EV_CURRENT, ELFOSABI_NONE, 0] @ replicate 7 0,
      e_type = ET_REL, e_machine = EM_X86_64, e_version = ucast EV_CURRENT, e_entry = 0, e_phoff = 0,
      e_shoff = shoff, e_flags = 0, e_ehsize = of_nat sizeof_Elf64_Ehdr, e_phentsize = 0, e_phnum = 0,
      e_shentsize = of_nat sizeof_Elf64_Shdr, e_shnum = of_nat SEC_COUNT,
      e_shstrndx = of_nat SEC_SHSTRTAB\<rparr>"

text \<open>The contents of the file: header, sections, section header table.\<close>

definition elf_object :: "elfrc_container \<Rightarrow> string option \<Rightarrow> memory option" where
  "elf_object container symbol_prefix = do {
     let (start_name, end_name) = symbol_names symbol_prefix;
     (shstrtab, shoffs) \<leftarrow> build_strtab [''.resource'', ''.symtab'', ''.strtab'', ''.shstrtab''];
     (strtab, offs) \<leftarrow> build_strtab [start_name, end_name];
     let syms = [null_sym, boundary_sym (offs ! 0) 0, boundary_sym (offs ! 1) (ec_size container)];
     (file, _) \<leftarrow> byte_buf_append_zeros byte_buf_empty (of_nat sizeof_Elf64_Ehdr);
     file \<leftarrow> byte_buf_align file 16;
     (file, resource_off) \<leftarrow> byte_buf_append file (ec_data container) (ec_size container);
     file \<leftarrow> byte_buf_align file 8;
     (file, symtab_off) \<leftarrow> byte_buf_append file (concat (map put_sym syms)) (of_nat (3 * sizeof_Elf64_Sym));
     file \<leftarrow> byte_buf_align file 1;
     strtab_bytes \<leftarrow> byte_buf_bytes strtab;
     (file, strtab_off) \<leftarrow> byte_buf_append file strtab_bytes (bb_len strtab);
     shstrtab_bytes \<leftarrow> byte_buf_bytes shstrtab;
     (file, shstrtab_off) \<leftarrow> byte_buf_append file shstrtab_bytes (bb_len shstrtab);
     file \<leftarrow> byte_buf_align file 8;
     let shoff = bb_len file;
     let shdrs = [null_shdr,
       resource_shdr (shoffs ! 0) resource_off (ec_size container),
       symtab_shdr (shoffs ! 1) symtab_off,
       strtab_shdr (shoffs ! 2) strtab_off (bb_len strtab),
       strtab_shdr (shoffs ! 3) shstrtab_off (bb_len shstrtab)];
     (file, _) \<leftarrow> byte_buf_append file (concat (map put_shdr shdrs)) (of_nat (SEC_COUNT * sizeof_Elf64_Shdr));
     file \<leftarrow> byte_buf_poke file 0 (put_ehdr (object_ehdr shoff));
     byte_buf_bytes file
   }"

section \<open>Writing the file\<close>

datatype write_error = CannotOpenForWriting string | ShortWrite string

text \<open>
  What the file system does with an output path: \<open>fopen(path, "wb")\<close> fails, or the file takes
  that many bytes before \<open>fwrite\<close> stops. The result is the error, if any, and what the file
  then holds.
\<close>

type_synonym output_files = "string \<Rightarrow> nat option"

definition elfrc_write_elf_object ::
    "output_files \<Rightarrow> elfrc_container \<Rightarrow> string option \<Rightarrow> string
      \<Rightarrow> (write_error option \<times> memory option) option" where
  "elfrc_write_elf_object outs container symbol_prefix output_path = do {
     file \<leftarrow> elf_object container symbol_prefix;
     case outs output_path of
       None \<Rightarrow> Some (Some (CannotOpenForWriting output_path), None)
     | Some room \<Rightarrow>
         let written = take room file
         in Some (if length written \<noteq> length file then Some (ShortWrite output_path) else None,
              Some written)
   }"

end
