(* ===== verification/Elfrc_Main.thy ===== *)
theory Elfrc_Main
  imports Manifest_Parse Elf_Writer
begin

text \<open>
  \<open>src/elfrc/main.c\<close>: the arguments of the compiler, the default name of its output, and the
  pipeline from the manifest to the object file. The diagnostics on standard error are the list of
  messages, the file it leaves behind the path and the bytes that reached it.
\<close>

datatype elfrc_message =
    ElfrcUsage
  | UnknownOption string
  | UnexpectedArgument string
  | ManifestError string
  | BuildError build_error
  | WriteError write_error
  | Wrote string u64 nat

record elfrc_result =
  er_code :: int
  er_stderr :: "elfrc_message list"
  er_written :: "(string \<times> memory) option"

definition elfrc_exit :: "int \<Rightarrow> elfrc_message list \<Rightarrow> elfrc_result" where
  "elfrc_exit code msgs = \<lparr>er_code = code, er_stderr = msgs, er_written = None\<rparr>"

definition derive_output_name :: "string \<Rightarrow> string" where
  "derive_output_name manifest_path =
     (let base = (case strrchr manifest_path CHR ''/'' of Some s \<Rightarrow> tl s | None \<Rightarrow> manifest_path);
          stem_len = (case strrchr base CHR ''.'' of
            Some dot \<Rightarrow> length base - length dot | None \<Rightarrow> length base)
      in take stem_len base @ ''.o'')"

record elfrc_options =
  eo_manifest :: "string option"
  eo_output :: "string option"
  eo_prefix :: "string option"

text \<open>An argument that is not an option with a value: the last branches of the loop.\<close>

definition elfrc_plain_arg :: "elfrc_options \<Rightarrow> string \<Rightarrow> elfrc_result + elfrc_options" where
  "elfrc_plain_arg opts a =
     (if a = ''-h'' \<or> a = ''--help'' then Inl (elfrc_exit 0 [ElfrcUsage])
      else if (case a of c # _ \<Rightarrow> c = CHR ''-'' | [] \<Rightarrow> False)
      then Inl (elfrc_exit 1 [UnknownOption a, ElfrcUsage])
      else if eo_manifest opts = None then Inr (opts\<lparr>eo_manifest := Some a\<rparr>)
      else Inl (elfrc_exit 1 [UnexpectedArgument a, ElfrcUsage]))"

fun elfrc_args :: "elfrc_options \<Rightarrow> string list \<Rightarrow> elfrc_result + elfrc_options" where
  "elfrc_args opts [] = Inr opts"
| "elfrc_args opts [a] = elfrc_plain_arg opts a"
| "elfrc_args opts (a # val # rest) =
     (if a = ''-o'' then elfrc_args (opts\<lparr>eo_output := Some val\<rparr>) rest
      else if a = ''--symbol-prefix'' then elfrc_args (opts\<lparr>eo_prefix := Some val\<rparr>) rest
      else case elfrc_plain_arg opts a of
          Inl res \<Rightarrow> Inl res
        | Inr opts' \<Rightarrow> elfrc_args opts' (val # rest))"

definition elfrc_compile ::
    "(string \<Rightarrow> yaml_load) \<Rightarrow> (string \<Rightarrow> bool) \<Rightarrow> file_system \<Rightarrow> output_files \<Rightarrow> elfrc_options \<Rightarrow> string
      \<Rightarrow> elfrc_result option" where
  "elfrc_compile load is_reg fs outs opts manifest_path = do {
     parsed \<leftarrow> elfrc_manifest_parse load is_reg manifest_path;
     case parsed of
       Inl msg \<Rightarrow> Some (elfrc_exit 1 [ManifestError msg])
     | Inr manifest \<Rightarrow> do {
         let symbol_prefix = (if eo_prefix opts = None then mf_module manifest else eo_prefix opts);
         built \<leftarrow> elfrc_container_build fs manifest;
         case built of
           Inl e \<Rightarrow> Some (elfrc_exit 1 [BuildError e])
         | Inr container \<Rightarrow> do {
             let output_path = (case eo_output opts of
               Some p \<Rightarrow> p | None \<Rightarrow> derive_output_name manifest_path);
             (err, written) \<leftarrow> elfrc_write_elf_object outs container symbol_prefix output_path;
             let file = map_option (\<lambda>bytes. (output_path, bytes)) written;
             Some (case err of
                 Some e \<Rightarrow> \<lparr>er_code = 1, er_stderr = [WriteError e], er_written = file\<rparr>
               | None \<Rightarrow> \<lparr>er_code = 0,
                   er_stderr = [Wrote output_path (ec_size container) (length (mf_resources manifest))],
                   er_written = file\<rparr>)
           }
       }
   }"

definition elfrc_main ::
    "(string \<Rightarrow> yaml_load) \<Rightarrow> (string \<Rightarrow> bool) \<Rightarrow> file_system \<Rightarrow> output_files \<Rightarrow> string list
      \<Rightarrow> elfrc_result option" where
  "elfrc_main load is_reg fs outs args =
     (case elfrc_args \<lparr>eo_manifest = None, eo_output = None, eo_prefix = None\<rparr> args of
        Inl res \<Rightarrow> Some res
      | Inr opts \<Rightarrow> (case eo_manifest opts of
            None \<Rightarrow> Some (elfrc_exit 1 [ElfrcUsage])
          | Some manifest_path \<Rightarrow> elfrc_compile load is_reg fs outs opts manifest_path))"

section \<open>The default output name\<close>

text \<open>
  C34. Without \<open>-o\<close> the object file is named after the manifest, in the current directory: the
  directory part is dropped, the last extension is replaced by \<open>.o\<close>, and a name without an
  extension gets one.
\<close>

theorem derive_output_name_correct:
  assumes "CHR ''/'' \<notin> set stem" and "CHR ''/'' \<notin> set ext" and "CHR ''.'' \<notin> set ext"
  shows "derive_output_name (dir @ ''/'' @ stem @ ''.'' @ ext) = stem @ ''.o''
    \<and> derive_output_name (stem @ ''.'' @ ext) = stem @ ''.o''
    \<and> derive_output_name (dir @ ''/'' @ ext) = ext @ ''.o''"
proof -
  have dot: "strrchr (stem @ CHR ''.'' # ext) CHR ''.'' = Some (CHR ''.'' # ext)"
    using assms(3) by (intro strrchr_append) (simp add: strrchr_None)
  have noslash: "strrchr (stem @ CHR ''.'' # ext) CHR ''/'' = None" "strrchr ext CHR ''/'' = None"
    using assms(1,2) by (simp_all add: strrchr_None)
  have slash: "strrchr (dir @ CHR ''/'' # stem @ CHR ''.'' # ext) CHR ''/'' = Some (CHR ''/'' # stem @ CHR ''.'' # ext)"
    "strrchr (dir @ CHR ''/'' # ext) CHR ''/'' = Some (CHR ''/'' # ext)"
    using noslash by (intro strrchr_append; simp)+
  have nodot: "strrchr ext CHR ''.'' = None" using assms(3) by (simp add: strrchr_None)
  show ?thesis using dot noslash slash nodot by (simp add: derive_output_name_def Let_def)
qed

theorem derive_output_name_correct_witness:
  "derive_output_name (''res/a'' @ ''/'' @ ''ui.v2'' @ ''.'' @ ''elfrc'') = ''ui.v2'' @ ''.o''
    \<and> derive_output_name (''ui.v2'' @ ''.'' @ ''elfrc'') = ''ui.v2'' @ ''.o''
    \<and> derive_output_name (''res/a'' @ ''/'' @ ''elfrc'') = ''elfrc'' @ ''.o''"
  by (rule derive_output_name_correct) simp_all

end
