(* ===== verification/Erf_Reader.thy ===== *)
theory Erf_Reader
  imports Erf_Format Crc64 Fnv1a
begin

text \<open>
  \<open>src/libelfr/erf_reader.c\<close>: opening a container in memory, the lookups by name and id, the
  metadata walk and the checksum. The memory object at \<open>base\<close> is a list of bytes; a pointer
  into it is its offset, and a read past its end is an execution without a defined result.
  The thread's last error is the state every call takes and returns. Allocation is taken to
  succeed, as the code does not check it.
\<close>

section \<open>Errors\<close>

datatype ERFError =
  ERF_OK | ERF_ERR_BAD_MAGIC | ERF_ERR_UNSUPPORTED_VERSION | ERF_ERR_TRUNCATED
  | ERF_ERR_BAD_OFFSET | ERF_ERR_NOT_FOUND | ERF_ERR_INVALID_ARGUMENT | ERF_ERR_NO_DEFAULT_CONTAINER

fun erf_strerror :: "ERFError \<Rightarrow> string" where
  "erf_strerror ERF_OK = ''ok''"
| "erf_strerror ERF_ERR_BAD_MAGIC = ''bad ERF magic''"
| "erf_strerror ERF_ERR_UNSUPPORTED_VERSION = ''unsupported ERF major version''"
| "erf_strerror ERF_ERR_TRUNCATED = ''container truncated / smaller than header claims''"
| "erf_strerror ERF_ERR_BAD_OFFSET = ''container has an out-of-bounds offset or size''"
| "erf_strerror ERF_ERR_NOT_FOUND = ''resource not found''"
| "erf_strerror ERF_ERR_INVALID_ARGUMENT = ''invalid argument''"
| "erf_strerror ERF_ERR_NO_DEFAULT_CONTAINER = ''no default .resource object linked into this binary''"

section \<open>Containers\<close>

text \<open>The name and data pointers are offsets from \<open>base\<close>.\<close>

record ERFResource =
  res_id :: u32
  res_type :: u32
  res_language :: u32
  res_flags :: u32
  res_name :: u64
  res_data :: u64
  res_size :: u64
  res_timestamp :: u64
  res_metadata_offset :: u64

record ERFContainer =
  c_base :: memory
  c_size :: u64
  c_header :: ERFHeader
  c_entry_stride :: u32
  c_resources :: "ERFResource list"
  c_resource_count :: u32
  c_has_hash_table :: bool
  c_hash_bucket_count :: u32
  c_hash_buckets :: u64

definition in_bounds :: "u64 \<Rightarrow> u64 \<Rightarrow> u64 \<Rightarrow> bool" where
  "in_bounds sz offset len = (if sz < offset then False else if sz - offset < len then False else True)"

text \<open>\<open>__builtin_mul_overflow\<close> on 64-bit operands: \<open>None\<close> when the product overflows.\<close>

definition mul_overflow :: "u64 \<Rightarrow> u64 \<Rightarrow> u64 option" where
  "mul_overflow a b = (if unat a * unat b < 2 ^ 64 then Some (a * b) else None)"

section \<open>Opening\<close>

definition resource_of_entry :: "ERFDirectoryEntry \<Rightarrow> ERFResource" where
  "resource_of_entry entry =
     \<lparr>res_id = d_id entry, res_type = d_type entry, res_language = d_language entry,
      res_flags = d_flags entry, res_name = ucast (d_name_offset entry),
      res_data = d_data_offset entry, res_size = d_data_size entry,
      res_timestamp = d_timestamp entry, res_metadata_offset = d_metadata_offset entry\<rparr>"

text \<open>
  The directory entry is copied over a zeroed struct, as many bytes of it as the stride has.
\<close>

definition read_entry :: "memory \<Rightarrow> ERFHeader \<Rightarrow> nat \<Rightarrow> ERFDirectoryEntry option" where
  "read_entry b header i = do {
     let n = min sizeof_ERFDirectoryEntry (unat (h_directory_entry_size header));
     bytes \<leftarrow> mem_read b
       (unat (h_directory_offset header) + unat (of_nat i * ucast (h_directory_entry_size header) :: u64)) n;
     Some (get_entry (bytes @ zeros (sizeof_ERFDirectoryEntry - n)))
   }"

fun open_resources :: "memory \<Rightarrow> ERFHeader \<Rightarrow> nat \<Rightarrow> nat \<Rightarrow> ERFResource list option option" where
  "open_resources b header i 0 = Some (Some [])"
| "open_resources b header i (Suc k) = do {
     entry \<leftarrow> read_entry b header i;
     if \<not> in_bounds (h_total_size header) (ucast (d_name_offset entry)) 1
        \<or> \<not> in_bounds (h_total_size header) (d_data_offset entry) (d_data_size entry)
     then Some None
     else do {
       rest \<leftarrow> open_resources b header (Suc i) k;
       Some (map_option (\<lambda>rs. resource_of_entry entry # rs) rest)
     }
   }"

definition header_has_hash :: "ERFHeader \<Rightarrow> bool" where
  "header_has_hash header \<longleftrightarrow>
     h_flags header AND ERF_HFLAG_HASH_TABLE_PRESENT \<noteq> 0 \<and> h_hash_table_offset header \<noteq> 0"

text \<open>The hash table: \<open>Some None\<close> is a bad offset, otherwise the bucket count and the buckets.\<close>

definition open_hash_table :: "memory \<Rightarrow> ERFHeader \<Rightarrow> (u32 \<times> u64) option option" where
  "open_hash_table b header =
     (if \<not> in_bounds (h_total_size header) (h_hash_table_offset header) (of_nat sizeof_ERFHashTableHeader)
      then Some None
      else do {
        bytes \<leftarrow> mem_read b (unat (h_hash_table_offset header)) sizeof_ERFHashTableHeader;
        let count = t_bucket_count (get_hash_header bytes);
        let start = h_hash_table_offset header + of_nat sizeof_ERFHashTableHeader;
        case mul_overflow (ucast count) (of_nat sizeof_ERFHashBucket) of
          None \<Rightarrow> Some None
        | Some span \<Rightarrow>
            Some (if in_bounds (h_total_size header) start span then Some (count, start) else None)
      })"

definition header_error :: "ERFHeader \<Rightarrow> u64 \<Rightarrow> ERFError option" where
  "header_error header sz =
     (if h_magic header \<noteq> ERF_MAGIC then Some ERF_ERR_BAD_MAGIC
      else if h_version_major header \<noteq> ERF_VERSION_MAJOR then Some ERF_ERR_UNSUPPORTED_VERSION
      else if unat (h_header_size header) < sizeof_ERFHeader then Some ERF_ERR_BAD_OFFSET
      else if h_total_size header < ucast (h_header_size header) \<or> sz < h_total_size header
      then Some ERF_ERR_BAD_OFFSET
      else if unat (h_directory_entry_size header) < sizeof_ERFDirectoryEntry then Some ERF_ERR_BAD_OFFSET
      else case mul_overflow (ucast (h_resource_count header)) (ucast (h_directory_entry_size header)) of
          None \<Rightarrow> Some ERF_ERR_BAD_OFFSET
        | Some span \<Rightarrow>
            if \<not> in_bounds (h_total_size header) (h_directory_offset header) span
            then Some ERF_ERR_BAD_OFFSET
            else if 0 < h_resource_count header
              \<and> \<not> in_bounds (h_total_size header) (h_string_offset header) 0
            then Some ERF_ERR_BAD_OFFSET
            else None)"

definition erf_open_memory ::
    "memory option \<Rightarrow> u64 \<Rightarrow> ERFError \<Rightarrow> (ERFContainer option \<times> ERFError) option" where
  "erf_open_memory base sz last_error =
     (if base = None \<or> unat sz < sizeof_ERFHeader
      then Some (None, if sz = 0 \<or> base = None then ERF_ERR_INVALID_ARGUMENT else ERF_ERR_TRUNCATED)
      else do {
        b \<leftarrow> base;
        bytes \<leftarrow> mem_read b 0 sizeof_ERFHeader;
        let header = get_header bytes;
        case header_error header sz of
          Some e \<Rightarrow> Some (None, e)
        | None \<Rightarrow> do {
            hash \<leftarrow> (if header_has_hash header then open_hash_table b header else Some (Some (0, 0)));
            case hash of
              None \<Rightarrow> Some (None, ERF_ERR_BAD_OFFSET)
            | Some (bucket_count, buckets) \<Rightarrow> do {
                resources \<leftarrow> open_resources b header 0 (unat (h_resource_count header));
                case resources of
                  None \<Rightarrow> Some (None, ERF_ERR_BAD_OFFSET)
                | Some rs \<Rightarrow>
                    Some (Some \<lparr>c_base = b, c_size = sz, c_header = header,
                        c_entry_stride = h_directory_entry_size header, c_resources = rs,
                        c_resource_count = h_resource_count header,
                        c_has_hash_table = header_has_hash header,
                        c_hash_bucket_count = bucket_count, c_hash_buckets = buckets\<rparr>, ERF_OK)
              }
          }
      })"

section \<open>Lookups\<close>

definition erf_resource_count :: "ERFContainer option \<Rightarrow> u32" where
  "erf_resource_count container = (case container of None \<Rightarrow> 0 | Some c \<Rightarrow> c_resource_count c)"

definition erf_resource_at ::
    "ERFContainer option \<Rightarrow> u32 \<Rightarrow> ERFError \<Rightarrow> ERFResource option \<times> ERFError" where
  "erf_resource_at container index last_error =
     (case container of
        None \<Rightarrow> (None, ERF_ERR_INVALID_ARGUMENT)
      | Some c \<Rightarrow>
          if c_resource_count c \<le> index then (None, ERF_ERR_INVALID_ARGUMENT)
          else (Some (c_resources c ! unat index), last_error))"

text \<open>\<open>strcmp(base + off, s) == 0\<close>, byte by byte up to the first difference or the NUL.\<close>

fun strcmp_eq :: "memory \<Rightarrow> nat \<Rightarrow> u8 list \<Rightarrow> bool option" where
  "strcmp_eq m off [] = (if off < length m then Some (m ! off = 0) else None)"
| "strcmp_eq m off (x # xs) =
     (if off < length m
      then if m ! off = x then strcmp_eq m (Suc off) xs else Some False
      else None)"

definition lookup_hash :: "string \<Rightarrow> u64" where
  "lookup_hash name =
     foldl (\<lambda>h p. (h XOR ucast p) * 0x100000001b3) 0xcbf29ce484222325 (bytes_of name)"

definition name_matches :: "ERFContainer \<Rightarrow> ERFResource \<Rightarrow> string \<Rightarrow> bool option" where
  "name_matches c r name = strcmp_eq (c_base c) (unat (res_name r)) (bytes_of name)"

fun find_probe ::
    "nat \<Rightarrow> ERFContainer \<Rightarrow> string \<Rightarrow> u64 \<Rightarrow> u32 \<Rightarrow> ERFResource option option" where
  "find_probe 0 c name h slot = Some None"
| "find_probe (Suc left) c name h slot = do {
     bytes \<leftarrow> mem_read (c_base c) (unat (c_hash_buckets c) + sizeof_ERFHashBucket * unat slot) sizeof_ERFHashBucket;
     let bucket = get_bucket bytes;
     if b_directory_index bucket = ERF_HASH_EMPTY then Some None
     else do {
       hit \<leftarrow> (if b_hash bucket = h \<and> b_directory_index bucket < c_resource_count c
               then name_matches c (c_resources c ! unat (b_directory_index bucket)) name
               else Some False);
       if hit then Some (Some (c_resources c ! unat (b_directory_index bucket)))
       else find_probe left c name h ((slot + 1) mod c_hash_bucket_count c)
     }
   }"

fun find_linear :: "ERFContainer \<Rightarrow> string \<Rightarrow> ERFResource list \<Rightarrow> ERFResource option option" where
  "find_linear c name [] = Some None"
| "find_linear c name (r # rs) = do {
     hit \<leftarrow> name_matches c r name;
     if hit then Some (Some r) else find_linear c name rs
   }"

definition found :: "ERFResource option \<Rightarrow> ERFResource option \<times> ERFError" where
  "found r = (r, if r = None then ERF_ERR_NOT_FOUND else ERF_OK)"

definition erf_find_in ::
    "ERFContainer option \<Rightarrow> string option \<Rightarrow> ERFError \<Rightarrow> (ERFResource option \<times> ERFError) option" where
  "erf_find_in container name last_error =
     (case (container, name) of
        (Some c, Some n) \<Rightarrow>
          if c_has_hash_table c \<and> 0 < c_hash_bucket_count c
          then let h = lookup_hash n in
            map_option found
              (find_probe (unat (c_hash_bucket_count c)) c n h (ucast (h mod ucast (c_hash_bucket_count c))))
          else map_option found (find_linear c n (c_resources c))
      | _ \<Rightarrow> Some (None, ERF_ERR_INVALID_ARGUMENT))"

definition erf_find_id_in ::
    "ERFContainer option \<Rightarrow> u32 \<Rightarrow> ERFError \<Rightarrow> ERFResource option \<times> ERFError" where
  "erf_find_id_in container i last_error =
     (case container of
        None \<Rightarrow> (None, ERF_ERR_INVALID_ARGUMENT)
      | Some c \<Rightarrow> found (find (\<lambda>r. res_id r = i) (c_resources c)))"

text \<open>The data pointer and the size written through the out-parameter.\<close>

definition erf_resource_data_in ::
    "ERFContainer option \<Rightarrow> string option \<Rightarrow> ERFError \<Rightarrow> ((u64 option \<times> u64) \<times> ERFError) option" where
  "erf_resource_data_in container name last_error = do {
     (r, e) \<leftarrow> erf_find_in container name last_error;
     Some (case r of
         None \<Rightarrow> ((None, 0), e)
       | Some res \<Rightarrow> ((Some (res_data res), res_size res), e))
   }"

section \<open>Metadata\<close>

definition erf_metadata_count :: "ERFContainer option \<Rightarrow> ERFResource option \<Rightarrow> int option" where
  "erf_metadata_count container res =
     (case (container, res) of
        (Some c, Some r) \<Rightarrow>
          if res_metadata_offset r = 0 then Some 0
          else if \<not> in_bounds (c_size c) (res_metadata_offset r) 4 then Some 0
          else map_option (\<lambda>bytes. sint (get32 bytes)) (mem_read (c_base c) (unat (res_metadata_offset r)) 4)
      | _ \<Rightarrow> Some 0)"

text \<open>
  One round of the loop of \<open>erf_metadata_get\<close> at offset \<open>off\<close>: \<open>Some None\<close> is the return value
  -1, otherwise the offsets of key and value and the offset after the pair.
\<close>

definition metadata_pair :: "memory \<Rightarrow> u64 \<Rightarrow> u64 \<Rightarrow> (u64 \<times> u64 \<times> u64) option option" where
  "metadata_pair m sz off =
     (if \<not> in_bounds sz off 4 then Some None
      else do {
        kbytes \<leftarrow> mem_read m (unat off) 4;
        let klen = get32 kbytes;
        let key = off + 4;
        if \<not> in_bounds sz key (ucast klen + 1) then Some None
        else do {
          let voff = key + (ucast klen + 1);
          if \<not> in_bounds sz voff 4 then Some None
          else do {
            vbytes \<leftarrow> mem_read m (unat voff) 4;
            let vlen = get32 vbytes;
            let val = voff + 4;
            if \<not> in_bounds sz val (ucast vlen + 1) then Some None
            else Some (Some (key, val, val + (ucast vlen + 1)))
          }
        }
      })"

text \<open>The loop, with \<open>k\<close> pairs before the one asked for.\<close>

fun metadata_walk :: "memory \<Rightarrow> u64 \<Rightarrow> u64 \<Rightarrow> nat \<Rightarrow> (u64 \<times> u64) option option" where
  "metadata_walk m sz off 0 = do {
     p \<leftarrow> metadata_pair m sz off;
     Some (case p of None \<Rightarrow> None | Some (key, val, after) \<Rightarrow> Some (key, val))
   }"
| "metadata_walk m sz off (Suc k) = do {
     p \<leftarrow> metadata_pair m sz off;
     case p of None \<Rightarrow> Some None | Some (key, val, after) \<Rightarrow> metadata_walk m sz after k
   }"

definition erf_metadata_get ::
    "ERFContainer option \<Rightarrow> ERFResource option \<Rightarrow> int \<Rightarrow> (int \<times> (u64 \<times> u64) option) option" where
  "erf_metadata_get container res index =
     (case (container, res) of
        (Some c, Some r) \<Rightarrow>
          if res_metadata_offset r = 0 \<or> index < 0 then Some (-1, None)
          else if \<not> in_bounds (c_size c) (res_metadata_offset r) 4 then Some (-1, None)
          else do {
            bytes \<leftarrow> mem_read (c_base c) (unat (res_metadata_offset r)) 4;
            if get32 bytes \<le> of_int index then Some (-1, None)
            else do {
              kv \<leftarrow> metadata_walk (c_base c) (c_size c) (res_metadata_offset r + 4) (nat index);
              Some (case kv of None \<Rightarrow> (-1, None) | Some p \<Rightarrow> (0, Some p))
            }
          }
      | _ \<Rightarrow> Some (-1, None))"

section \<open>Checksum\<close>

definition erf_verify_checksum :: "ERFContainer option \<Rightarrow> bool option" where
  "erf_verify_checksum container =
     (case container of
        None \<Rightarrow> Some False
      | Some c \<Rightarrow> do {
          tmp \<leftarrow> mem_read (c_base c) 0 (unat (c_size c));
          tmp' \<leftarrow> mem_write tmp 88 (put64 0);
          Some (elfr_crc64 tmp' = h_checksum (c_header c))
        })"

end
