(* ===== verification/Elfresdump.thy ===== *)
theory Elfresdump
  imports Elf_Writer Erf_Reader C_Text
begin

text \<open>
  \<open>src/elfresdump/main.c\<close>: the tool that finds the \<open>.resource\<close> section in a file on disk and
  lists or extracts its resources. The mapped file is a list of bytes; a read outside it has no
  defined result. What the tool prints is its standard output as a string and the list of its
  diagnostics; the file it writes is the path and the bytes that reach it.
\<close>

section \<open>Arguments and messages\<close>

datatype dump_message =
    DumpUsage
  | UnknownArgument string
  | ExtractRequiresOutput
  | CannotOpen string
  | FstatFailed string
  | MmapFailed string
  | NotAnElfFile string
  | OnlyElf64Le
  | NoSectionHeaderTable string
  | NoResourceSection string
  | InvalidContainer string string
  | ResourceNotFound string
  | FailedToWrite string

record dump_result =
  dr_code :: int
  dr_stdout :: string
  dr_stderr :: "dump_message list"
  dr_written :: "(string \<times> memory) option"

definition dump_fails :: "dump_message list \<Rightarrow> dump_result" where
  "dump_fails msgs = \<lparr>dr_code = 1, dr_stdout = [], dr_stderr = msgs, dr_written = None\<rparr>"

record dump_options =
  do_extract :: "string option"
  do_output :: "string option"

fun dump_args :: "dump_options \<Rightarrow> string list \<Rightarrow> dump_result + dump_options" where
  "dump_args opts [] = Inr opts"
| "dump_args opts [a] =
     (if a = ''-h'' \<or> a = ''--help''
      then Inl \<lparr>dr_code = 0, dr_stdout = [], dr_stderr = [DumpUsage], dr_written = None\<rparr>
      else Inl (dump_fails [UnknownArgument a, DumpUsage]))"
| "dump_args opts (a # val # rest) =
     (if a = ''--extract'' then dump_args (opts\<lparr>do_extract := Some val\<rparr>) rest
      else if a = ''-o'' then dump_args (opts\<lparr>do_output := Some val\<rparr>) rest
      else if a = ''-h'' \<or> a = ''--help''
      then Inl \<lparr>dr_code = 0, dr_stdout = [], dr_stderr = [DumpUsage], dr_written = None\<rparr>
      else Inl (dump_fails [UnknownArgument a, DumpUsage]))"

text \<open>\<open>open\<close>, \<open>fstat\<close> and \<open>mmap\<close> on the file to read.\<close>

datatype mapped_file = NotOpened | NoStat | NotMapped | Mapped memory

section \<open>The section header table\<close>

definition check_ehdr :: "string \<Rightarrow> memory \<Rightarrow> (dump_message + Elf64_Ehdr) option" where
  "check_ehdr file_path base =
     (if length base < sizeof_Elf64_Ehdr \<or> take 4 base \<noteq> ELFMAG then Some (Inl (NotAnElfFile file_path))
      else do {
        bytes \<leftarrow> mem_read base 0 sizeof_Elf64_Ehdr;
        let ehdr = get_ehdr bytes;
        Some (if e_ident ehdr ! EI_CLASS \<noteq> ELFCLASS64 \<or> e_ident ehdr ! EI_DATA \<noteq> ELFDATA2LSB
          then Inl OnlyElf64Le
          else if e_shoff ehdr = 0 \<or> e_shnum ehdr = 0
            \<or> of_nat (length base) < e_shoff ehdr + ucast (e_shnum ehdr) * ucast (e_shentsize ehdr)
          then Inl (NoSectionHeaderTable file_path)
          else Inr ehdr)
      })"

definition read_shdr :: "memory \<Rightarrow> u64 \<Rightarrow> nat \<Rightarrow> Elf64_Shdr option" where
  "read_shdr base shoff i =
     map_option get_shdr (mem_read base (unat shoff + sizeof_Elf64_Shdr * i) sizeof_Elf64_Shdr)"

fun find_section :: "memory \<Rightarrow> u64 \<Rightarrow> u64 \<Rightarrow> nat \<Rightarrow> nat \<Rightarrow> Elf64_Shdr option option" where
  "find_section base shoff shstrtab i 0 = Some None"
| "find_section base shoff shstrtab i (Suc k) = do {
     shdr \<leftarrow> read_shdr base shoff i;
     hit \<leftarrow> strcmp_eq base (unat shstrtab + unat (sh_name shdr)) (bytes_of ''.resource'');
     if hit then Some (Some shdr) else find_section base shoff shstrtab (Suc i) k
   }"

definition find_resource_section :: "memory \<Rightarrow> Elf64_Ehdr \<Rightarrow> Elf64_Shdr option option" where
  "find_resource_section base ehdr = do {
     shstrtab_hdr \<leftarrow> read_shdr base (e_shoff ehdr) (unat (e_shstrndx ehdr));
     find_section base (e_shoff ehdr) (sh_offset shstrtab_hdr) 0 (unat (e_shnum ehdr))
   }"

section \<open>Listing and extracting\<close>

definition type_name :: "u32 \<Rightarrow> string" where
  "type_name t =
     (let names = [''binary'', ''string'', ''json'', ''xml'', ''yaml'', ''png'', ''jpeg'', ''svg'', ''gif'',
        ''icon'', ''font'', ''audio'', ''video'', ''shader'', ''certificate'']
      in if unat t < length names then names ! unat t else ''application-defined'')"

text \<open>The string a pointer into memory stands for; there must be a NUL before the memory ends.\<close>

definition read_string :: "memory \<Rightarrow> nat \<Rightarrow> string option" where
  "read_string m off =
     (if 0 \<in> set (drop off m)
      then Some (map (\<lambda>b. char_of (unat b)) (takeWhile (\<lambda>b. b \<noteq> 0) (drop off m))) else None)"

definition newline :: string where "newline = [char_of (10 :: nat)]"

definition format_row :: "string \<Rightarrow> string \<Rightarrow> string \<Rightarrow> string \<Rightarrow> string \<Rightarrow> string" where
  "format_row a b c d e =
     pad_right 6 a @ '' '' @ pad_right 24 b @ '' '' @ pad_right 12 c @ '' '' @ pad_right 8 d @ '' ''
     @ pad_left 10 e @ newline"

definition resource_row :: "ERFResource \<Rightarrow> string \<Rightarrow> string" where
  "resource_row r name = format_row (decimal (unat (res_id r))) name (type_name (res_type r))
     (decimal (unat (res_language r))) (decimal (unat (res_size r)))"

fun list_rows :: "ERFContainer \<Rightarrow> nat \<Rightarrow> nat \<Rightarrow> string option" where
  "list_rows c i 0 = Some []"
| "list_rows c i (Suc k) = do {
     r \<leftarrow> fst (erf_resource_at (Some c) (of_nat i) ERF_OK);
     name \<leftarrow> read_string (c_base c) (unat (res_name r));
     rest \<leftarrow> list_rows c (Suc i) k;
     Some (resource_row r name @ rest)
   }"

definition dump_list :: "ERFContainer \<Rightarrow> dump_result option" where
  "dump_list c = do {
     rows \<leftarrow> list_rows c 0 (unat (erf_resource_count (Some c)));
     Some \<lparr>dr_code = 0, dr_stdout = format_row ''ID'' ''NAME'' ''TYPE'' ''LANG'' ''SIZE'' @ rows,
       dr_stderr = [], dr_written = None\<rparr>
   }"

definition dump_extract :: "output_files \<Rightarrow> ERFContainer \<Rightarrow> string \<Rightarrow> string \<Rightarrow> dump_result option" where
  "dump_extract outs c name output_path = do {
     (r, _) \<leftarrow> erf_find_in (Some c) (Some name) ERF_OK;
     case r of
       None \<Rightarrow> Some (dump_fails [ResourceNotFound name])
     | Some res \<Rightarrow> (case outs output_path of
           None \<Rightarrow> Some (dump_fails [FailedToWrite output_path])
         | Some room \<Rightarrow> do {
             data \<leftarrow> mem_read (c_base c) (unat (res_data res)) (unat (res_size res));
             Some (if min room (length data) \<noteq> unat (res_size res)
               then (dump_fails [FailedToWrite output_path])\<lparr>dr_written := Some (output_path, take room data)\<rparr>
               else \<lparr>dr_code = 0, dr_stdout = [], dr_stderr = [], dr_written = Some (output_path, data)\<rparr>)
           })
   }"

section \<open>The tool\<close>

definition dump_container ::
    "output_files \<Rightarrow> dump_options \<Rightarrow> string \<Rightarrow> memory \<Rightarrow> u64 \<Rightarrow> dump_result option" where
  "dump_container outs opts file_path start sz = do {
     (container, last_error) \<leftarrow> erf_open_memory (Some start) sz ERF_OK;
     case container of
       None \<Rightarrow> Some (dump_fails [InvalidContainer file_path (erf_strerror last_error)])
     | Some c \<Rightarrow> (case do_extract opts of
           Some name \<Rightarrow> do {
             output_path \<leftarrow> do_output opts;
             dump_extract outs c name output_path
           }
         | None \<Rightarrow> dump_list c)
   }"

definition dump_file :: "output_files \<Rightarrow> dump_options \<Rightarrow> string \<Rightarrow> memory \<Rightarrow> dump_result option" where
  "dump_file outs opts file_path base = do {
     checked \<leftarrow> check_ehdr file_path base;
     case checked of
       Inl msg \<Rightarrow> Some (dump_fails [msg])
     | Inr ehdr \<Rightarrow> do {
         resource_hdr \<leftarrow> find_resource_section base ehdr;
         case resource_hdr of
           None \<Rightarrow> Some (dump_fails [NoResourceSection file_path])
         | Some hdr \<Rightarrow>
             dump_container outs opts file_path (drop (unat (sh_offset hdr)) base) (sh_size hdr)
       }
   }"

definition elfresdump_main ::
    "(string \<Rightarrow> mapped_file) \<Rightarrow> output_files \<Rightarrow> string list \<Rightarrow> dump_result option" where
  "elfresdump_main files outs args =
     (case args of
        [] \<Rightarrow> Some (dump_fails [DumpUsage])
      | file_path # rest \<Rightarrow> (case dump_args \<lparr>do_extract = None, do_output = None\<rparr> rest of
            Inl res \<Rightarrow> Some res
          | Inr opts \<Rightarrow>
              if do_extract opts \<noteq> None \<and> do_output opts = None
              then Some (dump_fails [ExtractRequiresOutput])
              else (case files file_path of
                  NotOpened \<Rightarrow> Some (dump_fails [CannotOpen file_path])
                | NoStat \<Rightarrow> Some (dump_fails [FstatFailed file_path])
                | NotMapped \<Rightarrow> Some (dump_fails [MmapFailed file_path])
                | Mapped base \<Rightarrow> dump_file outs opts file_path base)))"

section \<open>Offsets the tool does not check\<close>

text \<open>A file that is only a header whose section header table is said to start 64 bytes below \<open>2 ^ 64\<close>.\<close>

definition wrapping_ehdr :: Elf64_Ehdr where
  "wrapping_ehdr = (object_ehdr 0xFFFFFFFFFFFFFFC0)\<lparr>e_shnum := 1\<rparr>"

text \<open>A file with one section header and the name table said to be in section 4.\<close>

definition dangling_ehdr :: Elf64_Ehdr where
  "dangling_ehdr = (object_ehdr 64)\<lparr>e_shnum := 1\<rparr>"


end
