(* ===== verification/Container_Strings.thy ===== *)
theory Container_Strings
  imports Container_Build
begin

text \<open>
  The string table and the metadata table that \<open>elfrc_container_build\<close> appends: what the
  buffer holds after each loop, in closed form, and what stands at the recorded offsets.
\<close>

section \<open>Facts about the bytes already written survive appending\<close>

definition reads_cstr :: "u8 list \<Rightarrow> nat \<Rightarrow> string \<Rightarrow> bool" where
  "reads_cstr bs off s \<longleftrightarrow> mem_read bs off (Suc (length s)) = Some (cstr s)"

lemma reads_cstr_append: "reads_cstr bs off s \<Longrightarrow> reads_cstr (bs @ xs) off s"
  by (simp add: reads_cstr_def mem_read_append)

lemma reads_cstr_bound: "reads_cstr bs off s \<Longrightarrow> off + Suc (length s) \<le> length bs"
  by (auto simp: reads_cstr_def dest: mem_read_bound)

text \<open>At one offset stands one C string.\<close>

lemma cstr_prefix_unique:
  assumes "no_nul s" and "no_nul t" and "take (length (cstr s)) m = cstr s"
    and "take (length (cstr t)) m = cstr t"
  shows "s = t"
  using assms
proof (induction s arbitrary: t m)
  case Nil
  then show ?case by (cases t; cases m) (auto simp: cstr_def bytes_of_def)
next
  case (Cons c s)
  then show ?case
    by (cases t; cases m) (auto simp: cstr_def bytes_of_def of_char_u8_inject)
qed

lemma reads_cstr_unique:
  assumes "reads_cstr bs off s" and "reads_cstr bs off t" and "no_nul s" and "no_nul t"
  shows "s = t"
proof -
  from assms(1,2) have "take (length (cstr s)) (drop off bs) = cstr s"
    and "take (length (cstr t)) (drop off bs) = cstr t"
    by (auto simp: reads_cstr_def mem_read_eq_Some)
  with assms(3,4) show ?thesis by (rule cstr_prefix_unique)
qed

section \<open>The string table\<close>

text \<open>The specification: every distinct name once, in the order of first appearance.\<close>

fun add_names :: "string list \<Rightarrow> string list \<Rightarrow> string list" where
  "add_names acc [] = acc"
| "add_names acc (n # ns) = add_names (if n \<in> set acc then acc else acc @ [n]) ns"

definition strings_bytes :: "string list \<Rightarrow> u8 list" where
  "strings_bytes ns = concat (map cstr ns)"

lemma strings_bytes_append: "strings_bytes (a @ b) = strings_bytes a @ strings_bytes b"
  by (simp add: strings_bytes_def)

lemma add_names_extends: "\<exists>new. add_names acc ns = acc @ new"
proof (induction ns arbitrary: acc)
  case Nil
  then show ?case by simp
next
  case (Cons n ns)
  then obtain new where "add_names (if n \<in> set acc then acc else acc @ [n]) ns
      = (if n \<in> set acc then acc else acc @ [n]) @ new" by blast
  then show ?case by (cases "n \<in> set acc") auto
qed

lemma set_add_names: "set (add_names acc ns) = set acc \<union> set ns"
  by (induction ns arbitrary: acc) auto

lemma distinct_add_names: "distinct acc \<Longrightarrow> distinct (add_names acc ns)"
  by (induction ns arbitrary: acc) auto

definition names_size :: "string list \<Rightarrow> nat" where
  "names_size ns = sum_list (map (\<lambda>s. Suc (length s)) ns)"

lemma names_size_simps [simp]:
  "names_size [] = 0" "names_size (n # ns) = Suc (length n) + names_size ns"
  by (simp_all add: names_size_def)

lemma length_strings_bytes: "length (strings_bytes ns) = names_size ns"
  by (induction ns) (simp_all add: strings_bytes_def)

text \<open>
  Every entry of the table under construction stands at its offset in the buffer, after the
  placeholders that end at \<open>base\<close>.
\<close>

definition strtab_ok :: "nat \<Rightarrow> string_table \<Rightarrow> u8 list \<Rightarrow> bool" where
  "strtab_ok base st bs \<longleftrightarrow>
     (\<forall>e\<in>set st. base \<le> unat (se_offset e) \<and> reads_cstr bs (unat (se_offset e)) (se_name e))"

lemma strtab_ok_append: "strtab_ok base st bs \<Longrightarrow> strtab_ok base st (bs @ xs)"
  by (auto simp: strtab_ok_def intro: reads_cstr_append)

lemma find_name_None:
  "find (\<lambda>e. se_name e = name) st = None \<longleftrightarrow> name \<notin> set (map se_name st)"
  by (auto simp: find_None_iff)

definition fresh_name :: "string_table \<Rightarrow> string \<Rightarrow> string list" where
  "fresh_name st name = (if name \<in> set (map se_name st) then [] else [name])"

lemma strings_bytes_simps [simp]:
  "strings_bytes [] = []" "strings_bytes [n] = cstr n"
  by (simp_all add: strings_bytes_def)

lemma string_table_intern_spec:
  assumes h: "holds buf bs" and st: "strtab_ok base st bs" and base: "base \<le> length bs"
    and size: "length bs + Suc (length name) \<le> 2 ^ 32"
  shows "\<exists>st' buf' off. string_table_intern st buf tb name = Some (st', buf', off)
    \<and> map se_name st' = map se_name st @ fresh_name st name
    \<and> holds buf' (bs @ strings_bytes (fresh_name st name))
    \<and> strtab_ok base st' (bs @ strings_bytes (fresh_name st name))
    \<and> (\<exists>e\<in>set st'. se_name e = name \<and> se_offset e = off) \<and> set st \<subseteq> set st'"
proof (cases "find (\<lambda>e. se_name e = name) st")
  case (Some e)
  then have e: "e \<in> set st" "se_name e = name"
    by (auto simp: find_Some_iff)
  then have "fresh_name st name = []" by (auto simp: fresh_name_def)
  with Some h st e show ?thesis
    by (intro exI [of _ st] exI [of _ buf] exI [of _ "se_offset e"])
      (auto simp: string_table_intern_def)
next
  case None
  then have new: "fresh_name st name = [name]"
    by (simp add: find_name_None fresh_name_def del: set_map)
  let ?e = "\<lparr>se_name = name, se_offset = ucast (bb_len buf)\<rparr>"
  have n: "unat (of_nat (length name) + 1 :: u64) = length (cstr name)"
    using size unat_of_nat_u64 [of "Suc (length name)"] by (simp add: add.commute)
  have room: "length bs + length (cstr name) \<le> 2 ^ 63" using size by simp
  obtain buf' where
    app: "byte_buf_append buf (cstr name) (of_nat (length name) + 1) = Some (buf', of_nat (length bs))"
    and h': "holds buf' (bs @ cstr name)" by (rule buf.append_whole [OF h n room])
  have "unat (bb_len buf) = length bs" using h by (simp add: holds_def)
  then have off: "unat (ucast (bb_len buf) :: u32) = length bs"
    using size by (subst unat_ucast_u64_u32) simp_all
  have "reads_cstr (bs @ cstr name) (length bs) name"
    by (simp add: reads_cstr_def mem_read_end)
  with st base off have "strtab_ok base (st @ [?e]) (bs @ cstr name)"
    by (auto simp: strtab_ok_def intro: reads_cstr_append)
  with None new app h' show ?thesis
    by (intro exI [of _ "st @ [?e]"] exI [of _ buf'] exI [of _ "ucast (bb_len buf)"])
      (auto simp: string_table_intern_def Let_def)
qed

definition named :: "elfrc_resource list \<Rightarrow> string list \<Rightarrow> bool" where
  "named rs ns \<longleftrightarrow> map r_name rs = map Some ns"

lemma named_simps [simp]:
  "named [] ns \<longleftrightarrow> ns = []"
  "named (r # rs) ns \<longleftrightarrow> (\<exists>n ns'. ns = n # ns' \<and> r_name r = Some n \<and> named rs ns')"
  by (auto simp: named_def map_eq_Cons_conv)

lemma named_length: "named rs ns \<Longrightarrow> length ns = length rs"
  unfolding named_def by (metis length_map)

lemma named_nth: "named rs ns \<Longrightarrow> i < length rs \<Longrightarrow> r_name (rs ! i) = Some (ns ! i)"
  unfolding named_def by (metis length_map nth_map)

lemma intern_names_spec:
  assumes "holds buf bs" and "strtab_ok base st bs" and "named rs ns" and "base \<le> length bs"
    and "length bs + names_size ns \<le> 2 ^ 32"
  shows "\<exists>st' buf' offs new. intern_names st buf tb rs = Some (st', buf', offs)
    \<and> map se_name st' = add_names (map se_name st) ns
    \<and> add_names (map se_name st) ns = map se_name st @ new
    \<and> holds buf' (bs @ strings_bytes new) \<and> strtab_ok base st' (bs @ strings_bytes new)
    \<and> names_size new \<le> names_size ns
    \<and> length offs = length rs
    \<and> (\<forall>i < length rs. \<exists>e\<in>set st'. se_name e = ns ! i \<and> se_offset e = offs ! i)
    \<and> set st \<subseteq> set st'"
  using assms
proof (induction rs arbitrary: buf bs st ns)
  case Nil
  then show ?case by (auto simp: strings_bytes_def)
next
  case (Cons r rs)
  from Cons.prems(3) obtain n ns' where ns: "ns = n # ns'" and r: "r_name r = Some n"
    and rs: "named rs ns'" by auto
  let ?x = "fresh_name st n"
  have le1: "length bs + Suc (length n) \<le> 2 ^ 32" using Cons.prems(5) ns by simp
  from string_table_intern_spec [OF Cons.prems(1,2,4) le1, of tb]
  obtain st1 buf1 off where i1: "string_table_intern st buf tb n = Some (st1, buf1, off)"
    and n1: "map se_name st1 = map se_name st @ ?x"
    and h1: "holds buf1 (bs @ strings_bytes ?x)" and ok1: "strtab_ok base st1 (bs @ strings_bytes ?x)"
    and e1: "\<exists>e\<in>set st1. se_name e = n \<and> se_offset e = off" and sub1: "set st \<subseteq> set st1"
    by (elim exE conjE)
  have "length (strings_bytes ?x) \<le> Suc (length n)"
    by (simp add: fresh_name_def)
  then have le2: "length (bs @ strings_bytes ?x) + names_size ns' \<le> 2 ^ 32"
    using Cons.prems(5) ns by simp
  have base1: "base \<le> length (bs @ strings_bytes ?x)" using Cons.prems(4) by simp
  from Cons.IH [OF h1 ok1 rs base1 le2] obtain st2 buf2 offs new where
    i2: "intern_names st1 buf1 tb rs = Some (st2, buf2, offs)"
    and n2: "map se_name st2 = add_names (map se_name st1) ns'"
    and new2: "add_names (map se_name st1) ns' = map se_name st1 @ new"
    and h2: "holds buf2 ((bs @ strings_bytes ?x) @ strings_bytes new)"
    and ok2: "strtab_ok base st2 ((bs @ strings_bytes ?x) @ strings_bytes new)"
    and size2: "names_size new \<le> names_size ns'"
    and len2: "length offs = length rs"
    and e2: "\<forall>i < length rs. \<exists>e\<in>set st2. se_name e = ns' ! i \<and> se_offset e = offs ! i"
    and sub2: "set st1 \<subseteq> set st2" by (elim exE conjE)
  have "add_names (map se_name st) ns = add_names (map se_name st1) ns'"
    using n1 ns by (simp add: fresh_name_def)
  then have add: "add_names (map se_name st) ns = map se_name st @ (?x @ new)"
    using new2 n1 by simp
  have names: "map se_name st2 = add_names (map se_name st) ns"
    using n2 new2 n1 add by simp
  have e2': "\<exists>e\<in>set st2. se_name e = ns ! i \<and> se_offset e = (off # offs) ! i"
    if "i < length (r # rs)" for i
    using that e1 e2 sub2 ns by (cases i) auto
  have size: "names_size (?x @ new) \<le> names_size ns"
    using size2 ns by (simp add: names_size_def fresh_name_def)
  have b2: "bs @ strings_bytes (?x @ new) = (bs @ strings_bytes ?x) @ strings_bytes new"
    by (simp add: strings_bytes_append)
  have run: "intern_names st buf tb (r # rs) = Some (st2, buf2, off # offs)"
    using r i1 i2 by simp
  show ?case
    by (rule exI [of _ st2], rule exI [of _ buf2], rule exI [of _ "off # offs"],
        rule exI [of _ "?x @ new"])
      (use run names add h2 ok2 b2 size len2 e2' sub1 sub2 in \<open>simp del: add_names.simps\<close>)
qed

section \<open>The metadata table\<close>

text \<open>The layout of one block: the pair count, then each key and value with its length.\<close>

definition kv_bytes :: "elfrc_metadata_kv \<Rightarrow> u8 list" where
  "kv_bytes kv = put32 (of_nat (length (m_key kv))) @ cstr (m_key kv)
     @ put32 (of_nat (length (m_value kv))) @ cstr (m_value kv)"

definition metadata_block :: "elfrc_metadata_kv list \<Rightarrow> u8 list" where
  "metadata_block kvs = put32 (of_nat (length kvs)) @ concat (map kv_bytes kvs)"

definition kvs_size :: "elfrc_metadata_kv list \<Rightarrow> nat" where
  "kvs_size kvs = sum_list (map (\<lambda>kv. 10 + length (m_key kv) + length (m_value kv)) kvs)"

lemma kvs_size_simps [simp]:
  "kvs_size [] = 0"
  "kvs_size (kv # kvs) = 10 + length (m_key kv) + length (m_value kv) + kvs_size kvs"
  by (simp_all add: kvs_size_def)

lemma length_kv_bytes: "length (kv_bytes kv) = 10 + length (m_key kv) + length (m_value kv)"
  by (simp add: kv_bytes_def)

lemma length_kvs_bytes: "length (concat (map kv_bytes kvs)) = kvs_size kvs"
  by (induction kvs) (simp_all add: length_kv_bytes)

lemma length_metadata_block: "length (metadata_block kvs) = 4 + kvs_size kvs"
  by (simp add: metadata_block_def length_kvs_bytes)

lemma count_le_kvs_size: "10 * length kvs \<le> kvs_size kvs"
  by (induction kvs) simp_all

lemma u32_length_plus_1:
  "Suc n < 2 ^ 32 \<Longrightarrow> unat (ucast ((of_nat n :: u32) + 1) :: u64) = Suc n"
proof -
  assume n: "Suc n < 2 ^ 32"
  have "(of_nat n :: u32) + 1 = of_nat (Suc n)" by (simp add: add.commute)
  then have "unat ((of_nat n :: u32) + 1) = Suc n" using unat_of_nat_u32 [OF n] by (simp only:)
  then show ?thesis by simp
qed

lemma append_u32:
  assumes "holds buf bs" and "length bs + 4 \<le> 2 ^ 63"
  obtains buf' where "byte_buf_append buf (put32 w) 4 = Some (buf', of_nat (length bs))"
    "holds buf' (bs @ put32 w)"
proof -
  have "unat (4 :: u64) = length (put32 w)" by simp
  moreover have "length bs + length (put32 w) \<le> 2 ^ 63" using assms(2) by simp
  ultimately show ?thesis using that by (rule buf.append_whole [OF assms(1)])
qed

lemma append_cstr_u32:
  assumes "holds buf bs" and "length bs + Suc (length s) \<le> 2 ^ 63" and "Suc (length s) < 2 ^ 32"
  obtains buf' where
    "byte_buf_append buf (cstr s) (ucast ((of_nat (length s) :: u32) + 1)) = Some (buf', of_nat (length bs))"
    "holds buf' (bs @ cstr s)"
proof -
  have "unat (ucast ((of_nat (length s) :: u32) + 1) :: u64) = length (cstr s)"
    using u32_length_plus_1 [OF assms(3)] by simp
  moreover have "length bs + length (cstr s) \<le> 2 ^ 63" using assms(2) by simp
  ultimately show ?thesis using that by (rule buf.append_whole [OF assms(1)])
qed

lemma append_metadata_pairs_spec:
  assumes "holds buf bs" and "length bs + kvs_size kvs < 2 ^ 32"
  shows "\<exists>buf'. append_metadata_pairs buf kvs = Some buf' \<and> holds buf' (bs @ concat (map kv_bytes kvs))"
  using assms
proof (induction kvs arbitrary: buf bs)
  case Nil
  then show ?case by simp
next
  case (Cons kv kvs)
  let ?k = "m_key kv" and ?v = "m_value kv"
  let ?kl = "of_nat (length ?k) :: u32" and ?vl = "of_nat (length ?v) :: u32"
  have size: "length bs + (10 + length ?k + length ?v + kvs_size kvs) < 2 ^ 32"
    using Cons.prems(2) by simp
  obtain b1 o1 where 1: "byte_buf_append buf (put32 ?kl) 4 = Some (b1, o1)"
    "holds b1 (bs @ put32 ?kl)"
    by (rule append_u32 [OF Cons.prems(1), of ?kl]) (use size in auto)
  obtain b2 o2 where 2: "byte_buf_append b1 (cstr ?k) (ucast (?kl + 1)) = Some (b2, o2)"
    "holds b2 ((bs @ put32 ?kl) @ cstr ?k)"
    by (rule append_cstr_u32 [OF 1(2), of ?k]) (use size in auto)
  obtain b3 o3 where 3: "byte_buf_append b2 (put32 ?vl) 4 = Some (b3, o3)"
    "holds b3 (((bs @ put32 ?kl) @ cstr ?k) @ put32 ?vl)"
    by (rule append_u32 [OF 2(2), of ?vl]) (use size in auto)
  obtain b4 o4 where 4: "byte_buf_append b3 (cstr ?v) (ucast (?vl + 1)) = Some (b4, o4)"
    "holds b4 ((((bs @ put32 ?kl) @ cstr ?k) @ put32 ?vl) @ cstr ?v)"
    by (rule append_cstr_u32 [OF 3(2), of ?v]) (use size in auto)
  from 4(2) have h4: "holds b4 (bs @ kv_bytes kv)" by (simp add: kv_bytes_def)
  have "length (bs @ kv_bytes kv) + kvs_size kvs < 2 ^ 32"
    using size by (simp add: length_kv_bytes)
  from Cons.IH [OF h4 this] 1(1) 2(1) 3(1) 4(1) show ?case by (simp add: Let_def)
qed

text \<open>What the recorded offset of a resource says of the buffer.\<close>

definition metadata_at :: "nat \<Rightarrow> u8 list \<Rightarrow> u64 \<Rightarrow> elfrc_metadata_kv list \<Rightarrow> bool" where
  "metadata_at base bs off kvs \<longleftrightarrow>
     (if kvs = [] then off = 0
      else off \<noteq> 0 \<and> base \<le> unat off \<and> unat off mod 8 = 0
        \<and> mem_read bs (unat off) (length (metadata_block kvs)) = Some (metadata_block kvs))"

lemma metadata_at_append: "metadata_at base bs off kvs \<Longrightarrow> metadata_at base (bs @ xs) off kvs"
  by (auto simp: metadata_at_def mem_read_append split: if_splits)

definition metadata_size :: "elfrc_resource list \<Rightarrow> nat" where
  "metadata_size rs =
     sum_list (map (\<lambda>r. if r_metadata r = [] then 0 else 12 + kvs_size (r_metadata r)) rs)"

lemma metadata_size_simps [simp]:
  "metadata_size [] = 0"
  "metadata_size (r # rs) =
     (if r_metadata r = [] then 0 else 12 + kvs_size (r_metadata r)) + metadata_size rs"
  by (simp_all add: metadata_size_def)

lemma append_metadata_block:
  assumes h: "holds buf bs" and ne: "bs \<noteq> []" and kvs: "kvs \<noteq> []"
    and base: "base \<le> length bs" and size: "length bs + (12 + kvs_size kvs) < 2 ^ 32"
  shows "\<exists>b1 b2 b3 off1 ext. byte_buf_align buf 8 = Some b1
    \<and> byte_buf_append b1 (put32 (of_nat (length kvs))) 4 = Some (b2, off1)
    \<and> append_metadata_pairs b2 kvs = Some b3 \<and> holds b3 (bs @ ext)
    \<and> length ext \<le> 12 + kvs_size kvs \<and> metadata_at base (bs @ ext) (bb_len b1) kvs"
proof -
  let ?p = "zeros (pad_to 8 (length bs))"
  have pad: "pad_to 8 (length bs) < 8" by (rule pad_to_less) simp
  obtain b1 where 1: "byte_buf_align buf 8 = Some b1" "holds b1 (bs @ ?p)"
    using align_holds [OF h, of 8] size by auto
  obtain b2 o2 where 2: "byte_buf_append b1 (put32 (of_nat (length kvs))) 4 = Some (b2, o2)"
    "holds b2 ((bs @ ?p) @ put32 (of_nat (length kvs)))"
    by (rule append_u32 [OF 1(2), of "of_nat (length kvs)"]) (use size pad in auto)
  have "length ((bs @ ?p) @ put32 (of_nat (length kvs))) + kvs_size kvs < 2 ^ 32"
    using size pad by simp
  from append_metadata_pairs_spec [OF 2(2) this] obtain b3 where
    3: "append_metadata_pairs b2 kvs = Some b3"
      "holds b3 (((bs @ ?p) @ put32 (of_nat (length kvs))) @ concat (map kv_bytes kvs))" by auto
  let ?ext = "?p @ metadata_block kvs"
  have h3: "holds b3 (bs @ ?ext)" using 3(2) by (simp add: metadata_block_def)
  have len: "unat (bb_len b1) = length bs + pad_to 8 (length bs)"
    using 1(2) by (simp add: holds_def)
  have "metadata_at base (bs @ ?ext) (bb_len b1) kvs"
  proof -
    have "mem_read ((bs @ ?p) @ metadata_block kvs) (length (bs @ ?p)) (length (metadata_block kvs))
        = Some (metadata_block kvs)" by (rule mem_read_end) simp
    moreover have "bb_len b1 \<noteq> 0" using len ne by auto
    moreover have "unat (bb_len b1) mod 8 = 0" using len pad_to_aligned [of 8 "length bs"] by simp
    ultimately show ?thesis using kvs len base by (simp add: metadata_at_def)
  qed
  moreover have "length ?ext \<le> 12 + kvs_size kvs" using pad by (simp add: length_metadata_block)
  ultimately show ?thesis using 1(1) 2(1) 3(1) h3 by blast
qed

lemma append_metadata_spec:
  assumes "holds buf bs" and "bs \<noteq> []" and "base \<le> length bs"
    and "length bs + metadata_size rs < 2 ^ 32"
  shows "\<exists>buf' offs ext. append_metadata buf any rs
      = Some (buf', any \<or> (\<exists>r\<in>set rs. r_metadata r \<noteq> []), offs)
    \<and> holds buf' (bs @ ext) \<and> length ext \<le> metadata_size rs \<and> length offs = length rs
    \<and> (\<forall>i < length rs. metadata_at base (bs @ ext) (offs ! i) (r_metadata (rs ! i)))"
  using assms
proof (induction rs arbitrary: buf bs any)
  case Nil
  then show ?case by (auto intro: exI [of _ "[]"])
next
  case (Cons r rs)
  show ?case
  proof (cases "r_metadata r = []")
    case True
    with Cons.prems have "length bs + metadata_size rs < 2 ^ 32" by simp
    from Cons.IH [OF Cons.prems(1,2,3) this, of any] obtain buf' offs ext where
      run: "append_metadata buf any rs = Some (buf', any \<or> (\<exists>r\<in>set rs. r_metadata r \<noteq> []), offs)"
      and res: "holds buf' (bs @ ext)" "length ext \<le> metadata_size rs" "length offs = length rs"
      and at: "\<forall>i < length rs. metadata_at base (bs @ ext) (offs ! i) (r_metadata (rs ! i))" by auto
    have "\<forall>i < length (r # rs). metadata_at base (bs @ ext) ((0 # offs) ! i) (r_metadata ((r # rs) ! i))"
      using at True by (auto simp: nth_Cons metadata_at_def split: nat.splits)
    with run res True show ?thesis
      by (intro exI [of _ buf'] exI [of _ "0 # offs"] exI [of _ ext]) simp
  next
    case False
    with Cons.prems have size: "length bs + (12 + kvs_size (r_metadata r)) < 2 ^ 32" by simp
    from append_metadata_block [OF Cons.prems(1,2) False Cons.prems(3) size] obtain b1 b2 b3 o1 ext1 where
      block: "byte_buf_align buf 8 = Some b1"
        "byte_buf_append b1 (put32 (of_nat (length (r_metadata r)))) 4 = Some (b2, o1)"
        "append_metadata_pairs b2 (r_metadata r) = Some b3"
      and h3: "holds b3 (bs @ ext1)" and e1: "length ext1 \<le> 12 + kvs_size (r_metadata r)"
      and at1: "metadata_at base (bs @ ext1) (bb_len b1) (r_metadata r)" by auto
    have "bs @ ext1 \<noteq> []" "base \<le> length (bs @ ext1)"
      "length (bs @ ext1) + metadata_size rs < 2 ^ 32"
      using Cons.prems False e1 by simp_all
    from Cons.IH [OF h3 this, of True] obtain buf' offs ext where
      run: "append_metadata b3 True rs = Some (buf', True, offs)"
      and h': "holds buf' ((bs @ ext1) @ ext)" and e: "length ext \<le> metadata_size rs"
      and len: "length offs = length rs"
      and at: "\<forall>i < length rs. metadata_at base ((bs @ ext1) @ ext) (offs ! i) (r_metadata (rs ! i))"
      by auto
    have "\<forall>i < length (r # rs).
        metadata_at base (bs @ ext1 @ ext) ((bb_len b1 # offs) ! i) (r_metadata ((r # rs) ! i))"
      using at metadata_at_append [OF at1, of ext] by (auto simp: nth_Cons split: nat.splits)
    with block run h' e e1 len False show ?thesis
      by (intro exI [of _ buf'] exI [of _ "bb_len b1 # offs"] exI [of _ "ext1 @ ext"])
        (simp add: Let_def)
  qed
qed

end
