(* ===== verification/Hash_Index.thy ===== *)
theory Hash_Index
  imports Container_Build
begin

text \<open>
  The name index that compiler and library share: open addressing with linear probing. The
  compiler fills it (\<open>hash_insert\<close>, the probe loop of \<open>container_build.c\<close>); the library
  searches it (the probe loop of \<open>erf_find_in\<close>, here over a list of buckets). The contract:
  a search gives the first resource, in directory order, with the name.
\<close>

section \<open>The contract of a name index\<close>

fun first_index :: "'a \<Rightarrow> 'a list \<Rightarrow> nat option" where
  "first_index q [] = None"
| "first_index q (x # xs) = (if x = q then Some 0 else map_option Suc (first_index q xs))"

lemma first_index_None: "first_index q xs = None \<longleftrightarrow> q \<notin> set xs"
  by (induction xs) auto

lemma first_index_Some:
  "first_index q xs = Some i \<longleftrightarrow> i < length xs \<and> xs ! i = q \<and> (\<forall>j < i. xs ! j \<noteq> q)"
proof (induction xs arbitrary: i)
  case Nil
  then show ?case by simp
next
  case (Cons x xs)
  then show ?case by (cases i) (auto simp: less_Suc_eq_0_disj)
qed

locale name_index =
  fixes add :: "'t \<Rightarrow> 'k \<Rightarrow> nat \<Rightarrow> 't option"
    and find_in :: "'k list \<Rightarrow> 't \<Rightarrow> 'k \<Rightarrow> nat option"
    and represents :: "'t \<Rightarrow> 'k list \<Rightarrow> bool"
    and slots :: "'t \<Rightarrow> nat"
  assumes add_spec:
      "represents t ks \<Longrightarrow> length ks < slots t \<Longrightarrow>
         \<exists>t'. add t k (length ks) = Some t' \<and> represents t' (ks @ [k]) \<and> slots t' = slots t"
    and find_spec: "represents t ks \<Longrightarrow> find_in ks t k = first_index k ks"
begin

primrec add_all :: "'t \<Rightarrow> nat \<Rightarrow> 'k list \<Rightarrow> 't option" where
  "add_all t i [] = Some t"
| "add_all t i (k # ks) = Option.bind (add t k i) (\<lambda>t'. add_all t' (Suc i) ks)"

lemma add_all_spec:
  assumes "represents t ks" and "length ks + length new \<le> slots t"
  shows "\<exists>t'. add_all t (length ks) new = Some t' \<and> represents t' (ks @ new) \<and> slots t' = slots t"
  using assms
proof (induction new arbitrary: t ks)
  case Nil
  then show ?case by simp
next
  case (Cons k new)
  then have "length ks < slots t" by simp
  from add_spec [OF Cons.prems(1) this, of k] obtain t1 where
    t1: "add t k (length ks) = Some t1" "represents t1 (ks @ [k])" "slots t1 = slots t" by auto
  from Cons.IH [OF t1(2)] Cons.prems(2) t1(3) obtain t' where
    "add_all t1 (length (ks @ [k])) new = Some t'" "represents t' ((ks @ [k]) @ new)"
    "slots t' = slots t1" by auto
  with t1 show ?case by simp
qed

text \<open>A filled index finds the first entry of every key, and nothing else.\<close>

lemma find_after_add_all:
  assumes "represents t []" and "length ks \<le> slots t"
  obtains t' where "add_all t 0 ks = Some t'" "represents t' ks"
    "\<And>k. find_in ks t' k = first_index k ks"
  using add_all_spec [of t "[]" ks] assms find_spec by auto

end

section \<open>The search loop over buckets\<close>

fun probe_find ::
    "nat \<Rightarrow> ERFHashBucket list \<Rightarrow> (u32 \<Rightarrow> bool) \<Rightarrow> u32 \<Rightarrow> u64 \<Rightarrow> u32 \<Rightarrow> u32 option" where
  "probe_find 0 buckets same bucket_count h slot = None"
| "probe_find (Suc k) buckets same bucket_count h slot =
     (let bucket = buckets ! unat slot in
      if b_directory_index bucket = ERF_HASH_EMPTY then None
      else if b_hash bucket = h \<and> same (b_directory_index bucket)
      then Some (b_directory_index bucket)
      else probe_find k buckets same bucket_count h ((slot + 1) mod bucket_count))"

definition start_slot :: "u32 \<Rightarrow> u64 \<Rightarrow> u32" where
  "start_slot bucket_count h = ucast (h mod ucast bucket_count)"

section \<open>Probe sequences\<close>

definition probe_pos :: "nat \<Rightarrow> nat \<Rightarrow> nat \<Rightarrow> nat" where
  "probe_pos N s d = (s + d) mod N"

lemma probe_pos_less: "0 < N \<Longrightarrow> probe_pos N s d < N"
  by (simp add: probe_pos_def)

lemma probe_pos_0: "s < N \<Longrightarrow> probe_pos N s 0 = s"
  by (simp add: probe_pos_def)

lemma probe_pos_Suc: "probe_pos N (probe_pos N s (Suc 0)) d = probe_pos N s (Suc d)"
  by (simp add: probe_pos_def mod_simps)

lemma probe_pos_covers: "s < N \<Longrightarrow> p < N \<Longrightarrow> \<exists>d < N. probe_pos N s d = p"
proof -
  assume s: "s < N" and p: "p < N"
  show ?thesis
  proof (cases "s \<le> p")
    case True
    then show ?thesis using p by (intro exI [of _ "p - s"]) (auto simp: probe_pos_def)
  next
    case False
    then show ?thesis using s p by (intro exI [of _ "N + p - s"]) (auto simp: probe_pos_def)
  qed
qed

lemma next_slot:
  assumes "unat bc = N" and "unat slot < N"
  shows "unat ((slot + 1) mod bc :: u32) = probe_pos N (unat slot) (Suc 0)"
proof -
  have "unat slot + 1 < 2 ^ 32" using assms unat_u32_bound [of bc] by simp
  then have "unat (slot + 1) = unat slot + 1" by (simp add: unat_word_ariths)
  then show ?thesis using assms(1) by (simp add: unat_mod_distrib probe_pos_def)
qed

lemma start_slot_unat:
  assumes "0 < unat bc"
  shows "unat (start_slot bc h) = unat h mod unat bc" and "unat (start_slot bc h) < unat bc"
proof -
  have r: "unat (h mod ucast bc) = unat h mod unat bc" by (simp add: unat_mod_distrib)
  then have "unat (h mod ucast bc) < 2 ^ 32"
    using assms unat_u32_bound [of bc] by (simp add: less_trans [OF mod_less_divisor])
  then show "unat (start_slot bc h) = unat h mod unat bc"
    using r by (simp add: start_slot_def unat_ucast_u64_u32)
  then show "unat (start_slot bc h) < unat bc" using assms by simp
qed

abbreviation occupied :: "ERFHashBucket \<Rightarrow> bool" where
  "occupied b \<equiv> b_directory_index b \<noteq> ERF_HASH_EMPTY"

lemma probe_free_pos:
  assumes "unat bc = N" and "unat slot < N" and "length buckets = N"
    and "\<And>d. d < k \<Longrightarrow> occupied (buckets ! probe_pos N (unat slot) d)"
    and "\<not> occupied (buckets ! probe_pos N (unat slot) k)"
  shows "\<exists>slot'. probe_free buckets bc slot = Some slot' \<and> unat slot' = probe_pos N (unat slot) k"
  using assms
proof (induction k arbitrary: slot)
  case 0
  then show ?case by (subst probe_free.simps) (simp add: probe_pos_0)
next
  case (Suc k)
  let ?next = "(slot + 1) mod bc"
  have n: "unat ?next = probe_pos N (unat slot) (Suc 0)" using Suc.prems(1,2) by (rule next_slot)
  have occ: "occupied (buckets ! unat slot)"
    using Suc.prems(4) [of 0] Suc.prems(2) by (simp add: probe_pos_0)
  have "unat ?next < N" using n Suc.prems(2) probe_pos_less [of N] by simp
  moreover have "occupied (buckets ! probe_pos N (unat ?next) d)" if "d < k" for d
    using Suc.prems(4) [of "Suc d"] that by (simp add: n probe_pos_Suc)
  moreover have "\<not> occupied (buckets ! probe_pos N (unat ?next) k)"
    using Suc.prems(5) by (simp add: n probe_pos_Suc)
  ultimately obtain slot' where "probe_free buckets bc ?next = Some slot'"
    "unat slot' = probe_pos N (unat ?next) k" using Suc.IH [of ?next] Suc.prems(1,3) by auto
  then show ?case
    using occ n by (subst probe_free.simps) (simp add: probe_pos_Suc)
qed

section \<open>The table while it is filled\<close>

definition bucket_of :: "string list \<Rightarrow> nat \<Rightarrow> ERFHashBucket" where
  "bucket_of ks i = \<lparr>b_hash = elfr_fnv1a64 (bytes_of (ks ! i)), b_directory_index = of_nat i,
     b_reserved0 = 0\<rparr>"

definition home :: "nat \<Rightarrow> string \<Rightarrow> nat" where
  "home N k = unat (elfr_fnv1a64 (bytes_of k)) mod N"

text \<open>
  \<open>placed tbl ks ds\<close>: key \<open>i\<close> lies \<open>ds ! i\<close> probes from its home; every bucket before it on
  its probe path holds an earlier key; every bucket is empty or holds a key placed there.
\<close>

definition placed :: "ERFHashBucket list \<Rightarrow> string list \<Rightarrow> nat list \<Rightarrow> bool" where
  "placed tbl ks ds \<longleftrightarrow>
     length ds = length ks
     \<and> (\<forall>i < length ks. ds ! i < length tbl
          \<and> tbl ! probe_pos (length tbl) (home (length tbl) (ks ! i)) (ds ! i) = bucket_of ks i
          \<and> (\<forall>d < ds ! i. \<exists>j < i. tbl ! probe_pos (length tbl) (home (length tbl) (ks ! i)) d = bucket_of ks j))
     \<and> (\<forall>p < length tbl. tbl ! p = empty_bucket
          \<or> (\<exists>i < length ks. tbl ! p = bucket_of ks i
               \<and> p = probe_pos (length tbl) (home (length tbl) (ks ! i)) (ds ! i)))"

definition index_ok :: "ERFHashBucket list \<Rightarrow> string list \<Rightarrow> bool" where
  "index_ok tbl ks \<longleftrightarrow>
     0 < length tbl \<and> length tbl < 2 ^ 32 \<and> length ks \<le> length tbl \<and> (\<exists>ds. placed tbl ks ds)"

lemma occupied_bucket_of: "i < 2 ^ 32 - 1 \<Longrightarrow> occupied (bucket_of ks i)"
proof
  assume i: "i < 2 ^ 32 - 1" and e: "b_directory_index (bucket_of ks i) = ERF_HASH_EMPTY"
  then have "unat (of_nat i :: u32) = unat ERF_HASH_EMPTY" by (simp add: bucket_of_def)
  moreover have "unat (of_nat i :: u32) = i" using i by (intro unat_of_nat_u32) simp
  ultimately show False using i by (simp add: ERF_HASH_EMPTY_def)
qed

lemma not_occupied_empty [simp]: "\<not> occupied empty_bucket"
  by (simp add: empty_bucket_def)

lemma bucket_of_append: "i < length ks \<Longrightarrow> bucket_of (ks @ x) i = bucket_of ks i"
  by (simp add: bucket_of_def nth_append)

lemma placed_free_slot:
  assumes p: "placed tbl ks ds" and less: "length ks < length tbl"
  shows "\<exists>q < length tbl. tbl ! q = empty_bucket"
proof (rule ccontr)
  assume none: "\<not> ?thesis"
  let ?pos = "\<lambda>i. probe_pos (length tbl) (home (length tbl) (ks ! i)) (ds ! i)"
  have "{..<length tbl} \<subseteq> ?pos ` {..<length ks}"
  proof
    fix q assume "q \<in> {..<length tbl}"
    with p none have "\<exists>i < length ks. q = ?pos i" by (auto simp: placed_def)
    then show "q \<in> ?pos ` {..<length ks}" by auto
  qed
  then have "card {..<length tbl} \<le> card {..<length ks}" by (rule surj_card_le [rotated]) simp
  with less show False by simp
qed

text \<open>Along the probe path of a new key the first free bucket comes after occupied ones only.\<close>

lemma placed_probe:
  assumes p: "placed tbl ks ds" and less: "length ks < length tbl" and big: "length tbl < 2 ^ 32"
    and s: "s < length tbl"
  shows "\<exists>k < length tbl. tbl ! probe_pos (length tbl) s k = empty_bucket
    \<and> (\<forall>d < k. \<exists>j < length ks. tbl ! probe_pos (length tbl) s d = bucket_of ks j)"
proof -
  from placed_free_slot [OF p less] obtain q where q: "q < length tbl" "tbl ! q = empty_bucket"
    by auto
  from probe_pos_covers [OF s q(1)] obtain d where "d < length tbl" "probe_pos (length tbl) s d = q" by auto
  with q have ex: "d < length tbl \<and> tbl ! probe_pos (length tbl) s d = empty_bucket" by simp
  let ?P = "\<lambda>d. d < length tbl \<and> tbl ! probe_pos (length tbl) s d = empty_bucket"
  let ?k = "LEAST d. ?P d"
  have k: "?P ?k" using ex by (rule LeastI)
  moreover have "\<exists>j < length ks. tbl ! probe_pos (length tbl) s d = bucket_of ks j" if "d < ?k" for d
  proof -
    have "probe_pos (length tbl) s d < length tbl" using s by (intro probe_pos_less) linarith
    moreover have "\<not> ?P d" using that by (rule not_less_Least)
    then have "tbl ! probe_pos (length tbl) s d \<noteq> empty_bucket" using that k by simp
    ultimately show ?thesis using p by (auto simp: placed_def)
  qed
  ultimately show ?thesis by blast
qed

lemma home_start: "unat bc = N \<Longrightarrow> 0 < N \<Longrightarrow> unat (start_slot bc (elfr_fnv1a64 (bytes_of k))) = home N k"
  by (simp add: start_slot_unat home_def)

lemma hash_insert_start:
  "hash_insert tbl bc h i = do {
     slot \<leftarrow> probe_free tbl bc (start_slot bc h);
     Some (tbl[unat slot := (tbl ! unat slot)\<lparr>b_hash := h, b_directory_index := i\<rparr>]) }"
  by (simp add: hash_insert_def start_slot_def)

lemma placed_update:
  assumes p: "placed tbl ks ds" and k: "k < length tbl"
    and free: "tbl ! probe_pos (length tbl) (home (length tbl) key) k = empty_bucket"
    and before: "\<forall>d < k. \<exists>j < length ks. tbl ! probe_pos (length tbl) (home (length tbl) key) d = bucket_of ks j"
    and big: "length ks < 2 ^ 32 - 1"
  shows "placed (tbl[probe_pos (length tbl) (home (length tbl) key) k := bucket_of (ks @ [key]) (length ks)])
    (ks @ [key]) (ds @ [k])"
proof -
  let ?N = "length tbl" and ?n = "length ks"
  let ?q = "probe_pos ?N (home ?N key) k"
  let ?t = "tbl[?q := bucket_of (ks @ [key]) ?n]"
  have N: "0 < ?N" using k by linarith
  have lds: "length ds = ?n" using p by (simp add: placed_def)
  have q: "?q < ?N" using N by (rule probe_pos_less)
  have occ: "bucket_of ks i \<noteq> empty_bucket" if "i < ?n" for i
    using occupied_bucket_of [of i ks] that big not_occupied_empty by force
  have keep: "?t ! r = bucket_of (ks @ [key]) j"
    if "tbl ! r = bucket_of ks j" "j < ?n" for r j
  proof -
    have "r \<noteq> ?q" using occ [OF that(2)] that(1) free by auto
    then show ?thesis using that by (simp add: bucket_of_append)
  qed
  have old: "(ds @ [k]) ! i < ?N
      \<and> ?t ! probe_pos ?N (home ?N ((ks @ [key]) ! i)) ((ds @ [k]) ! i) = bucket_of (ks @ [key]) i
      \<and> (\<forall>d < (ds @ [k]) ! i. \<exists>j < i. ?t ! probe_pos ?N (home ?N ((ks @ [key]) ! i)) d = bucket_of (ks @ [key]) j)"
    if "i < ?n" for i
  proof -
    from p that have a: "ds ! i < ?N" and b: "tbl ! probe_pos ?N (home ?N (ks ! i)) (ds ! i) = bucket_of ks i"
      and c: "\<forall>d < ds ! i. \<exists>j < i. tbl ! probe_pos ?N (home ?N (ks ! i)) d = bucket_of ks j"
      by (auto simp: placed_def)
    have "\<exists>j < i. ?t ! probe_pos ?N (home ?N (ks ! i)) d = bucket_of (ks @ [key]) j" if d: "d < ds ! i" for d
    proof -
      from c d obtain j where "j < i" "tbl ! probe_pos ?N (home ?N (ks ! i)) d = bucket_of ks j" by auto
      with keep [of _ j] \<open>i < ?n\<close> show ?thesis by (intro exI [of _ j]) simp
    qed
    then show ?thesis using that a keep [OF b] lds by (simp add: nth_append)
  qed
  have new: "\<exists>j < ?n. ?t ! probe_pos ?N (home ?N key) d = bucket_of (ks @ [key]) j" if "d < k" for d
    using before that keep by blast
  have cells: "?t ! r = empty_bucket \<or> (\<exists>i < Suc ?n. ?t ! r = bucket_of (ks @ [key]) i
      \<and> r = probe_pos ?N (home ?N ((ks @ [key]) ! i)) ((ds @ [k]) ! i))" if r: "r < ?N" for r
  proof (cases "r = ?q")
    case True
    then show ?thesis using q lds by (intro disjI2 exI [of _ ?n]) (simp add: nth_append)
  next
    case False
    from p r have "tbl ! r = empty_bucket \<or> (\<exists>i < ?n. tbl ! r = bucket_of ks i
        \<and> r = probe_pos ?N (home ?N (ks ! i)) (ds ! i))" by (auto simp: placed_def)
    then show ?thesis
    proof
      assume "tbl ! r = empty_bucket"
      then show ?thesis using False by simp
    next
      assume "\<exists>i < ?n. tbl ! r = bucket_of ks i \<and> r = probe_pos ?N (home ?N (ks ! i)) (ds ! i)"
      then obtain i where "i < ?n" "tbl ! r = bucket_of ks i"
        "r = probe_pos ?N (home ?N (ks ! i)) (ds ! i)" by auto
      then show ?thesis using keep lds by (intro disjI2 exI [of _ i]) (simp add: nth_append)
    qed
  qed
  show ?thesis
    unfolding placed_def
    using old new cells k q lds by (auto simp: less_Suc_eq nth_append)
qed

lemma hash_insert_spec:
  assumes ok: "index_ok tbl ks" and less: "length ks < length tbl" and small: "length tbl < 2 ^ 32 - 1"
  shows "\<exists>tbl'. hash_insert tbl (of_nat (length tbl)) (elfr_fnv1a64 (bytes_of key)) (of_nat (length ks))
      = Some tbl' \<and> index_ok tbl' (ks @ [key]) \<and> length tbl' = length tbl"
proof -
  let ?N = "length tbl" and ?bc = "of_nat (length tbl) :: u32"
  let ?s = "start_slot ?bc (elfr_fnv1a64 (bytes_of key))"
  from ok obtain ds where p: "placed tbl ks ds" and N: "0 < ?N" and big: "?N < 2 ^ 32"
    by (auto simp: index_ok_def)
  have bc: "unat ?bc = ?N" using big by (rule unat_of_nat_u32)
  have home: "unat ?s = home ?N key" using bc N by (rule home_start)
  have s: "home ?N key < ?N" using N by (simp add: home_def)
  from placed_probe [OF p less big s] obtain k where k: "k < ?N"
    and free: "tbl ! probe_pos ?N (home ?N key) k = empty_bucket"
    and before: "\<forall>d < k. \<exists>j < length ks. tbl ! probe_pos ?N (home ?N key) d = bucket_of ks j" by blast
  have occ: "occupied (tbl ! probe_pos ?N (unat ?s) d)" if d: "d < k" for d
  proof -
    from before d obtain j where j: "j < length ks" "tbl ! probe_pos ?N (home ?N key) d = bucket_of ks j" by auto
    have "j < 2 ^ 32 - 1" using j(1) less small by linarith
    then show ?thesis using occupied_bucket_of [of j ks] j(2) home by simp
  qed
  have "\<not> occupied (tbl ! probe_pos ?N (unat ?s) k)" using free home by simp
  from probe_free_pos [OF bc _ refl occ this] home s obtain slot where
    slot: "probe_free tbl ?bc ?s = Some slot" "unat slot = probe_pos ?N (home ?N key) k" by auto
  let ?q = "probe_pos ?N (home ?N key) k"
  let ?t = "tbl[?q := bucket_of (ks @ [key]) (length ks)]"
  have "hash_insert tbl ?bc (elfr_fnv1a64 (bytes_of key)) (of_nat (length ks)) = Some ?t"
    using slot free by (simp add: hash_insert_start bucket_of_def empty_bucket_def)
  moreover have "placed ?t (ks @ [key]) (ds @ [k])"
    using p k free before less_trans [OF less small] by (rule placed_update)
  then have "index_ok ?t (ks @ [key])"
    using N big less by (auto simp: index_ok_def)
  ultimately show ?thesis by simp
qed

section \<open>The search\<close>

definition same_name :: "string list \<Rightarrow> string \<Rightarrow> u32 \<Rightarrow> bool" where
  "same_name ks key idx \<longleftrightarrow> unat idx < length ks \<and> ks ! unat idx = key"

definition index_find :: "string list \<Rightarrow> ERFHashBucket list \<Rightarrow> string \<Rightarrow> nat option" where
  "index_find ks tbl key =
     map_option unat (probe_find (length tbl) tbl (same_name ks key) (of_nat (length tbl))
       (elfr_fnv1a64 (bytes_of key))
       (start_slot (of_nat (length tbl)) (elfr_fnv1a64 (bytes_of key))))"

lemma unat_bucket_index:
  "i < length ks \<Longrightarrow> length ks < 2 ^ 32 \<Longrightarrow> unat (b_directory_index (bucket_of ks i)) = i"
  by (simp add: bucket_of_def unat_of_nat_u32)

text \<open>A present key: the search passes earlier keys and stops at the first with the name.\<close>

lemma probe_find_hit:
  assumes bc: "unat bc = length tbl" and small: "length ks < 2 ^ 32 - 1"
    and i: "i < length ks" "ks ! i = key"
    and first: "\<forall>j < i. ks ! j \<noteq> key" and slot: "unat slot < length tbl" and fuel: "k < fuel"
    and here: "tbl ! probe_pos (length tbl) (unat slot) k = bucket_of ks i"
    and before: "\<And>d. d < k \<Longrightarrow> \<exists>j < i. tbl ! probe_pos (length tbl) (unat slot) d = bucket_of ks j"
  shows "probe_find fuel tbl (same_name ks key) bc (elfr_fnv1a64 (bytes_of key)) slot = Some (of_nat i)"
  using slot fuel here before
proof (induction k arbitrary: slot fuel)
  case 0
  then obtain fuel' where "fuel = Suc fuel'" by (cases fuel) auto
  moreover have "tbl ! unat slot = bucket_of ks i" using 0 by (simp add: probe_pos_0)
  moreover have "occupied (bucket_of ks i)" using i small by (intro occupied_bucket_of) linarith
  moreover have "same_name ks key (b_directory_index (bucket_of ks i))"
    using i small by (simp add: same_name_def unat_bucket_index)
  ultimately show ?case using i by (simp add: bucket_of_def)
next
  case (Suc k)
  then obtain fuel' where fuel': "fuel = Suc fuel'" "k < fuel'" by (cases fuel) auto
  let ?next = "(slot + 1) mod bc"
  have n: "unat ?next = probe_pos (length tbl) (unat slot) (Suc 0)" using bc Suc.prems(1) by (rule next_slot)
  from Suc.prems(4) [of 0] Suc.prems(1) obtain j where j: "j < i" "tbl ! unat slot = bucket_of ks j"
    by (auto simp: probe_pos_0)
  have occ: "occupied (bucket_of ks j)" using i j small by (intro occupied_bucket_of) linarith
  have other: "\<not> same_name ks key (b_directory_index (bucket_of ks j))"
    using i j first small by (auto simp: same_name_def unat_bucket_index)
  have "0 < length tbl" using Suc.prems(1) by linarith
  then have "unat ?next < length tbl" using n probe_pos_less by simp
  from Suc.IH [OF this fuel'(2)] Suc.prems(3,4) n
  have "probe_find fuel' tbl (same_name ks key) bc (elfr_fnv1a64 (bytes_of key)) ?next = Some (of_nat i)"
    by (simp add: probe_pos_Suc)
  then show ?case using fuel' occ other j by (simp add: Let_def)
qed

text \<open>An absent key is not found, whatever the length of the walk.\<close>

lemma probe_find_miss:
  assumes bc: "unat bc = length tbl" and small: "length ks < 2 ^ 32 - 1" and absent: "key \<notin> set ks"
    and cells: "\<forall>p < length tbl. tbl ! p = empty_bucket \<or> (\<exists>i < length ks. tbl ! p = bucket_of ks i)"
    and slot: "unat slot < length tbl"
  shows "probe_find fuel tbl (same_name ks key) bc h slot = None"
  using slot
proof (induction fuel arbitrary: slot)
  case 0
  then show ?case by simp
next
  case (Suc fuel)
  let ?next = "(slot + 1) mod bc"
  have n: "unat ?next = probe_pos (length tbl) (unat slot) (Suc 0)" using bc Suc.prems by (rule next_slot)
  have "0 < length tbl" using Suc.prems by linarith
  then have IH: "probe_find fuel tbl (same_name ks key) bc h ?next = None"
    using n probe_pos_less by (intro Suc.IH) simp
  from cells Suc.prems have "tbl ! unat slot = empty_bucket
      \<or> (\<exists>i < length ks. tbl ! unat slot = bucket_of ks i)" by blast
  then show ?case
  proof
    assume "tbl ! unat slot = empty_bucket"
    then show ?thesis by (simp add: empty_bucket_def)
  next
    assume "\<exists>i < length ks. tbl ! unat slot = bucket_of ks i"
    then obtain i where i: "i < length ks" "tbl ! unat slot = bucket_of ks i" by auto
    have "\<not> same_name ks key (b_directory_index (bucket_of ks i))"
      using i absent small by (auto simp: same_name_def unat_bucket_index)
    then show ?thesis using i IH by (simp add: Let_def)
  qed
qed

lemma index_find_spec:
  assumes ok: "index_ok tbl ks" and small: "length tbl < 2 ^ 32 - 1"
  shows "index_find ks tbl key = first_index key ks"
proof -
  let ?N = "length tbl" and ?bc = "of_nat (length tbl) :: u32"
  let ?s = "start_slot ?bc (elfr_fnv1a64 (bytes_of key))"
  from ok obtain ds where p: "placed tbl ks ds" and N: "0 < ?N" and big: "?N < 2 ^ 32"
    and len: "length ks \<le> ?N" by (auto simp: index_ok_def)
  have bc: "unat ?bc = ?N" using big by (rule unat_of_nat_u32)
  have s: "unat ?s = home ?N key" using bc N by (rule home_start)
  have s': "unat ?s < ?N" using s N by (simp add: home_def)
  have ks: "length ks < 2 ^ 32 - 1" using len small by linarith
  show ?thesis
  proof (cases "first_index key ks")
    case None
    then have "key \<notin> set ks" by (simp add: first_index_None)
    moreover have "\<forall>p < ?N. tbl ! p = empty_bucket \<or> (\<exists>i < length ks. tbl ! p = bucket_of ks i)"
      using p by (auto simp: placed_def)
    ultimately show ?thesis
      using None probe_find_miss [OF bc ks _ _ s'] by (simp add: index_find_def)
  next
    case (Some i)
    then have i: "i < length ks" "ks ! i = key" "\<forall>j < i. ks ! j \<noteq> key"
      by (simp_all add: first_index_Some)
    from p i(1) have d: "ds ! i < ?N" "tbl ! probe_pos ?N (home ?N (ks ! i)) (ds ! i) = bucket_of ks i"
      "\<forall>d < ds ! i. \<exists>j < i. tbl ! probe_pos ?N (home ?N (ks ! i)) d = bucket_of ks j"
      by (auto simp: placed_def)
    have "probe_find ?N tbl (same_name ks key) ?bc (elfr_fnv1a64 (bytes_of key)) ?s = Some (of_nat i)"
      using d i s by (intro probe_find_hit [OF bc ks i s' d(1)]) simp_all
    then show ?thesis using Some i(1) ks by (simp add: index_find_def unat_of_nat_u32)
  qed
qed

text \<open>The compiler's insertion and the library's search satisfy the contract.\<close>

definition index_add :: "ERFHashBucket list \<Rightarrow> string \<Rightarrow> nat \<Rightarrow> ERFHashBucket list option" where
  "index_add tbl key i = hash_insert tbl (of_nat (length tbl)) (elfr_fnv1a64 (bytes_of key)) (of_nat i)"

definition index_represents :: "ERFHashBucket list \<Rightarrow> string list \<Rightarrow> bool" where
  "index_represents tbl ks \<longleftrightarrow> index_ok tbl ks \<and> length tbl < 2 ^ 32 - 1"

interpretation names: name_index index_add index_find index_represents length
proof unfold_locales
  fix t k ks
  assume "index_represents t ks" and "length ks < length t"
  then show "\<exists>t'. index_add t k (length ks) = Some t' \<and> index_represents t' (ks @ [k])
      \<and> length t' = length t"
    using hash_insert_spec [of t ks k] by (auto simp: index_represents_def index_add_def)
next
  fix t ks k
  assume "index_represents t ks"
  then show "index_find ks t k = first_index k ks"
    by (simp add: index_represents_def index_find_spec)
qed

lemma index_represents_empty:
  assumes "0 < n" and "n < 2 ^ 32 - 1"
  shows "index_represents (replicate n empty_bucket) []"
  using assms by (auto simp: index_represents_def index_ok_def placed_def)

text \<open>The loop of the compiler over its resources is the contract's \<open>add_all\<close>.\<close>

lemma hash_insert_length: "hash_insert t bc h i = Some t' \<Longrightarrow> length t' = length t"
  by (auto simp: hash_insert_def bind_eq_Some_conv)

end
