(* ===== verification/Container_Data.thy ===== *)
theory Container_Data
  imports Container_Strings Hash_Index
begin

text \<open>
  The hash table and the resource data that \<open>elfrc_container_build\<close> appends, and the error
  paths of reading the resource files.
\<close>

section \<open>The size of the hash table\<close>

lemma next_pow2_loop_power:
  assumes "unat p = 2 ^ k" and "k \<le> 31" and "unat v \<le> 2 ^ 31"
  shows "\<exists>q j. next_pow2_loop p v = Some q \<and> k \<le> j \<and> j \<le> 31 \<and> unat q = 2 ^ j \<and> v \<le> q
    \<and> (q = p \<or> unat q < 2 * unat v)"
  using assms
proof (induction "31 - k" arbitrary: p k)
  case 0
  then have "\<not> p < v" by (simp add: word_less_nat_alt)
  with 0 show ?case by (subst next_pow2_loop.simps) (auto simp: not_less)
next
  case (Suc d)
  show ?case
  proof (cases "p < v")
    case False
    with Suc.prems show ?thesis by (subst next_pow2_loop.simps) (auto simp: not_less)
  next
    case True
    have k: "k < 31" using Suc.hyps(2) by simp
    then have "(2 :: nat) ^ Suc k < 2 ^ 32" by (intro power_strict_increasing) auto
    then have double: "unat (p * 2) = 2 ^ Suc k"
      using Suc.prems(1) by (simp add: unat_word_ariths mult.commute)
    have d: "d = 31 - Suc k" using Suc.hyps(2) by simp
    from Suc.hyps(1) [OF d double] k Suc.prems(3) obtain q j where
      "next_pow2_loop (p * 2) v = Some q" "Suc k \<le> j" "j \<le> 31" "unat q = 2 ^ j" "v \<le> q"
      "q = p * 2 \<or> unat q < 2 * unat v" by auto
    moreover have "unat (p * 2) < 2 * unat v"
      using True double Suc.prems(1) by (simp add: word_less_nat_alt)
    ultimately show ?thesis using True by (subst next_pow2_loop.simps) auto
  qed
qed

text \<open>Past half the range the doubling wraps to zero and the loop never ends.\<close>

lemma next_pow2_loop_zero: "v \<noteq> 0 \<Longrightarrow> next_pow2_loop 0 v = None"
proof (rule ccontr)
  assume v: "v \<noteq> 0" and "next_pow2_loop 0 v \<noteq> None"
  then obtain r where ret: "next_pow2_loop 0 v = Some r" by auto
  have "0 = (0 :: u32) \<longrightarrow> v = 0"
  proof (rule next_pow2_loop.raw_induct [where P = "\<lambda>p v r. p = 0 \<longrightarrow> v = 0", OF _ ret])
    fix f p v r
    assume "\<And>p v r. f p v = Some r \<Longrightarrow> p = (0 :: u32) \<longrightarrow> v = (0 :: u32)"
      and "(if p < v then f (p * 2) v else Some p) = Some r"
    then show "p = 0 \<longrightarrow> v = 0" by (auto split: if_splits simp: not_less)
  qed
  with v show False by simp
qed

lemma next_pow2_loop_diverges:
  assumes "unat p = 2 ^ k" and "k \<le> 31" and "2 ^ 31 < unat v"
  shows "next_pow2_loop p v = None"
  using assms
proof (induction "31 - k" arbitrary: p k)
  case 0
  then have p: "unat p = 2 ^ 31" by simp
  then have "p < v" using 0 by (simp add: word_less_nat_alt)
  moreover have "p * 2 = 0"
    using p by (simp add: unat_eq_zero [symmetric] unat_word_ariths del: unat_eq_zero)
  moreover have "v \<noteq> 0" using 0 by auto
  ultimately show ?case by (subst next_pow2_loop.simps) (simp add: next_pow2_loop_zero)
next
  case (Suc d)
  have k: "k < 31" using Suc.hyps(2) by simp
  then have "(2 :: nat) ^ Suc k < 2 ^ 32" by (intro power_strict_increasing) auto
  then have double: "unat (p * 2) = 2 ^ Suc k"
    using Suc.prems(1) by (simp add: unat_word_ariths mult.commute)
  have "(2 :: nat) ^ k \<le> 2 ^ 31" using k by (intro power_increasing) auto
  then have "p < v" using Suc.prems by (simp add: word_less_nat_alt)
  moreover have d: "d = 31 - Suc k" using Suc.hyps(2) by simp
  from Suc.hyps(1) [OF d double] k Suc.prems(3) have "next_pow2_loop (p * 2) v = None" by simp
  ultimately show ?case by (subst next_pow2_loop.simps) simp
qed

lemma next_pow2_spec:
  assumes "unat v \<le> 2 ^ 31"
  shows "\<exists>q j. next_pow2 v = Some q \<and> 4 \<le> j \<and> j \<le> 31 \<and> unat q = 2 ^ j \<and> v \<le> q
    \<and> (q = 16 \<or> unat q < 2 * unat v)"
  using next_pow2_loop_power [of 16 4 v] assms by (simp add: next_pow2_def)

text \<open>
  C29. \<open>next_pow2\<close> returns exactly on arguments up to \<open>2 ^ 31\<close>; there the result is a power of
  two, at least 16 and at least the argument, and less than twice the argument unless it is 16
  (so it is the least such power). Above that bound the loop never ends.
\<close>

theorem next_pow2_correct:
  "(case next_pow2 v of
      None \<Rightarrow> 2 ^ 31 < unat v
    | Some q \<Rightarrow> unat v \<le> 2 ^ 31 \<and> (\<exists>j. unat q = 2 ^ j) \<and> 16 \<le> q \<and> v \<le> q
        \<and> (q = 16 \<or> unat q < 2 * unat v))"
proof (cases "unat v \<le> 2 ^ 31")
  case True
  from next_pow2_spec [OF this] obtain q j where
    q: "next_pow2 v = Some q" "4 \<le> j" "unat q = 2 ^ j" "v \<le> q" "q = 16 \<or> unat q < 2 * unat v"
    by auto
  have "(2 :: nat) ^ 4 \<le> 2 ^ j" using q(2) by (intro power_increasing) auto
  then have "16 \<le> q" using q(3) by (simp add: word_le_nat_alt)
  with q True show ?thesis by auto
next
  case False
  then show ?thesis
    using next_pow2_loop_diverges [of 16 4 v] by (simp add: next_pow2_def)
qed

section \<open>The hash table\<close>

definition name_hash :: "string \<Rightarrow> u64" where
  "name_hash n = elfr_fnv1a64 (bytes_of n)"

lemma hash_fill_add_all:
  assumes "named rs ns"
  shows "hash_fill tbl (of_nat (length tbl)) i rs
    = map_option (\<lambda>t. (t, map name_hash ns)) (names.add_all tbl i ns)"
  using assms
proof (induction rs arbitrary: tbl i ns)
  case Nil
  then show ?case by simp
next
  case (Cons r rs)
  then obtain n ns' where ns: "ns = n # ns'" "r_name r = Some n" "named rs ns'" by auto
  have eq: "hash_insert tbl (of_nat (length tbl)) (elfr_fnv1a64 (bytes_of n)) (of_nat i)
      = index_add tbl n i" by (simp add: index_add_def)
  show ?case
  proof (cases "index_add tbl n i")
    case None
    then show ?thesis using ns eq by (simp add: Let_def)
  next
    case (Some t)
    then have "length t = length tbl" by (simp add: index_add_def hash_insert_length)
    with Cons.IH [OF ns(3), of t "Suc i"] Some ns eq show ?thesis
      by (cases "names.add_all t (Suc i) ns'") (simp_all add: Let_def name_hash_def)
  qed
qed

text \<open>The bytes of a hash table at an offset of the container.\<close>

definition hash_table_at :: "u8 list \<Rightarrow> nat \<Rightarrow> ERFHashBucket list \<Rightarrow> bool" where
  "hash_table_at bs off tbl \<longleftrightarrow>
     mem_read bs off 8 = Some (put_hash_header \<lparr>t_bucket_count = of_nat (length tbl), t_reserved0 = 0\<rparr>)
     \<and> mem_read bs (off + 8) (16 * length tbl) = Some (concat (map put_bucket tbl))"

lemma hash_table_at_append: "hash_table_at bs off tbl \<Longrightarrow> hash_table_at (bs @ xs) off tbl"
  by (simp add: hash_table_at_def mem_read_append)

definition table_size :: "nat \<Rightarrow> nat" where
  "table_size n = 8 + 16 * (16 + 4 * n)"

lemma length_buckets: "length (concat (map put_bucket tbl)) = 16 * length tbl"
  using bucket_codec.enc_array_length [of tbl]
  by (simp add: bucket_codec.enc_array_def sizeof_defs)

lemma append_hash_table_spec:
  assumes h: "holds buf bs" and nm: "named rs ns" and n: "length rs < 2 ^ 25"
    and size: "length bs + table_size (length rs) \<le> 2 ^ 63"
  shows "\<exists>buf' tbl. append_hash_table buf (of_nat (length rs)) rs = Some (buf', map name_hash ns)
    \<and> holds buf' (bs @ put_hash_header \<lparr>t_bucket_count = of_nat (length tbl), t_reserved0 = 0\<rparr>
        @ concat (map put_bucket tbl))
    \<and> 8 + 16 * length tbl \<le> table_size (length rs) \<and> 16 \<le> length tbl
    \<and> length tbl \<le> 2 ^ 31 \<and> index_represents tbl ns"
proof -
  let ?n = "length rs"
  have v: "unat (ucast ((of_nat ?n :: u64) * 2) :: u32) = 2 * ?n"
  proof -
    have "(of_nat ?n :: u64) * 2 = of_nat (2 * ?n)" by simp
    then have "unat ((of_nat ?n :: u64) * 2) = 2 * ?n"
      using n by (simp only:) (rule unat_of_nat_u64, simp)
    then show ?thesis using n by (simp add: unat_ucast_u64_u32)
  qed
  obtain q j where q: "next_pow2 (ucast ((of_nat ?n :: u64) * 2)) = Some q" "4 \<le> j" "j \<le> 31"
    "unat q = 2 ^ j" "2 * ?n \<le> unat q" "q = 16 \<or> unat q < 4 * ?n"
    using next_pow2_spec [of "ucast ((of_nat ?n :: u64) * 2)"] v n by (auto simp: word_le_nat_alt)
  let ?bc = "if of_nat ?n = (0 :: u64) then 16 else q"
  have "(2 :: nat) ^ 4 \<le> 2 ^ j" "(2 :: nat) ^ j \<le> 2 ^ 31"
    using q(2,3) by (intro power_increasing; simp)+
  then have bc: "16 \<le> unat ?bc" "unat ?bc \<le> 2 ^ 31" "?n \<le> unat ?bc" "unat ?bc \<le> 16 + 4 * ?n"
    using q(4,5,6) n unat_of_nat_u64 [of ?n] by (auto split: if_splits)
  define tbl0 where "tbl0 = replicate (unat ?bc) empty_bucket"
  have tbl0: "length tbl0 = unat ?bc" "of_nat (length tbl0) = ?bc" by (simp_all add: tbl0_def)
  have "index_represents tbl0 []"
    using bc by (simp add: tbl0_def index_represents_empty)
  moreover have "length ns \<le> length tbl0" using bc(3) named_length [OF nm] by (simp add: tbl0)
  ultimately obtain tbl where add: "names.add_all tbl0 0 ns = Some tbl" and rep: "index_represents tbl ns"
    using names.add_all_spec [of tbl0 "[]" ns] by auto
  have len: "length tbl = unat ?bc"
    using names.add_all_spec [OF \<open>index_represents tbl0 []\<close>, of ns] add \<open>length ns \<le> length tbl0\<close>
    by (auto simp: tbl0)
  have fill: "hash_fill tbl0 ?bc 0 rs = Some (tbl, map name_hash ns)"
    using hash_fill_add_all [OF nm, of tbl0 0] add by (simp add: tbl0)
  let ?hh = "put_hash_header \<lparr>t_bucket_count = ?bc, t_reserved0 = 0\<rparr>"
  have hh: "length ?hh = 8" by (simp add: put_hash_header_def)
  have small: "length bs + (8 + 16 * unat ?bc) \<le> 2 ^ 63"
    using size bc(4) by (simp add: table_size_def)
  obtain b1 where b1: "byte_buf_append buf ?hh 8 = Some (b1, of_nat (length bs))" "holds b1 (bs @ ?hh)"
    by (rule buf.append_whole [OF h, of 8 ?hh]) (use hh small in auto)
  have "unat (ucast ?bc * 16 :: u64) = 16 * unat ?bc"
    using bc(2) by (simp add: unat_word_ariths)
  then obtain b2 where b2: "byte_buf_append b1 (concat (map put_bucket tbl)) (ucast ?bc * 16)
      = Some (b2, of_nat (length (bs @ ?hh)))" "holds b2 ((bs @ ?hh) @ concat (map put_bucket tbl))"
    using buf.append_whole [OF b1(2), of "ucast ?bc * 16" "concat (map put_bucket tbl)"] small hh len
    by (auto simp: length_buckets)
  have "append_hash_table buf (of_nat ?n) rs = Some (b2, map name_hash ns)"
    using q(1) b1(1) b2(1) fill by (simp add: append_hash_table_def tbl0_def Let_def)
  moreover have "8 + 16 * length tbl \<le> table_size ?n" using len bc(4) by (simp add: table_size_def)
  ultimately show ?thesis using b2(2) rep len bc(1,2) by (intro exI [of _ b2] exI [of _ tbl]) simp
qed

section \<open>The resource data\<close>

text \<open>
  The bytes of a resource's file, when it can be opened and read completely: the size
  \<open>ftell\<close> reports is not negative and \<open>fread\<close> delivers that many bytes.
\<close>

definition file_bytes :: "file_system \<Rightarrow> elfrc_resource \<Rightarrow> u8 list option" where
  "file_bytes fs r = do {
     path \<leftarrow> r_file r;
     f \<leftarrow> fs path;
     if 0 \<le> of_size f \<and> nat (of_size f) \<le> length (of_bytes f)
     then Some (take (nat (of_size f)) (of_bytes f)) else None
   }"

text \<open>\<open>ftell\<close> returns a 64-bit \<open>long\<close>.\<close>

definition long_sizes :: "file_system \<Rightarrow> bool" where
  "long_sizes fs \<longleftrightarrow> (\<forall>p f. fs p = Some f \<longrightarrow> - (2 ^ 63) \<le> of_size f \<and> of_size f < 2 ^ 63)"

definition place_at :: "nat \<Rightarrow> u8 list \<Rightarrow> data_place \<Rightarrow> u8 list \<Rightarrow> bool" where
  "place_at base bs p d \<longleftrightarrow>
     base \<le> unat (p_offset p) \<and> unat (p_offset p) mod 16 = 0
     \<and> unat (p_size p) = length d \<and> p_checksum p = elfr_crc64 d
     \<and> mem_read bs (unat (p_offset p)) (length d) = Some d"

lemma place_at_append: "place_at base bs p d \<Longrightarrow> place_at base (bs @ xs) p d"
  by (simp add: place_at_def mem_read_append)

definition data_size :: "u8 list list \<Rightarrow> nat" where
  "data_size ds = sum_list (map (\<lambda>d. 16 + length d) ds)"

lemma data_size_simps [simp]:
  "data_size [] = 0" "data_size (d # ds) = 16 + length d + data_size ds"
  by (simp_all add: data_size_def)

lemma unat_of_int_u64: "0 \<le> z \<Longrightarrow> z < 2 ^ 64 \<Longrightarrow> unat (of_int z :: u64) = nat z"
  using unat_of_nat_u64 [of "nat z"] by simp

lemma append_data_file:
  assumes h: "holds buf bs" and base: "base \<le> length bs"
    and size: "length bs + (16 + length d) \<le> 2 ^ 63"
  shows "\<exists>b1 b2 off1 ext. byte_buf_align buf 16 = Some b1
    \<and> byte_buf_append b1 d (of_nat (length d)) = Some (b2, off1) \<and> holds b2 (bs @ ext)
    \<and> length ext \<le> 16 + length d
    \<and> place_at base (bs @ ext)
        \<lparr>p_offset = bb_len b1, p_size = of_nat (length d), p_checksum = elfr_crc64 d\<rparr> d"
proof -
  let ?p = "zeros (pad_to 16 (length bs))"
  have pad: "pad_to 16 (length bs) < 16" by (rule pad_to_less) simp
  obtain b1 where 1: "byte_buf_align buf 16 = Some b1" "holds b1 (bs @ ?p)"
    using align_holds [OF h, of 16] size by auto
  have n: "unat (of_nat (length d) :: u64) = length d" using size by (intro unat_of_nat_u64) simp
  obtain b2 o2 where 2: "byte_buf_append b1 d (of_nat (length d)) = Some (b2, o2)"
    "holds b2 ((bs @ ?p) @ d)"
    by (rule buf.append_whole [OF 1(2) n]) (use size pad in auto)
  have len: "unat (bb_len b1) = length bs + pad_to 16 (length bs)" using 1(2) by (simp add: holds_def)
  have "mem_read ((bs @ ?p) @ d) (length (bs @ ?p)) (length d) = Some d" by (rule mem_read_end) simp
  moreover have "unat (bb_len b1) mod 16 = 0" using len pad_to_aligned [of 16 "length bs"] by simp
  ultimately have "place_at base (bs @ ?p @ d)
      \<lparr>p_offset = bb_len b1, p_size = of_nat (length d), p_checksum = elfr_crc64 d\<rparr> d"
    using len base n by (simp add: place_at_def)
  moreover have "length (?p @ d) \<le> 16 + length d" using pad by simp
  ultimately show ?thesis using 1(1) 2 by (metis append.assoc)
qed

lemma file_bytes_read:
  assumes "file_bytes fs r = Some d"
  obtains path f where "r_file r = Some path" "fs path = Some f"
    "0 \<le> of_size f" "nat (of_size f) = length d"
    "(if of_size f > 0 then fread f (nat (of_size f)) else []) = d"
proof -
  from assms obtain path f where pf: "r_file r = Some path" "fs path = Some f"
    and c: "0 \<le> of_size f" "nat (of_size f) \<le> length (of_bytes f)"
    and d: "d = take (nat (of_size f)) (of_bytes f)"
    by (auto simp: file_bytes_def bind_eq_Some_conv split: if_splits)
  have "(if of_size f > 0 then fread f (nat (of_size f)) else []) = d"
    using c d by (auto simp: fread_def)
  with that [OF pf c(1)] c d show thesis by simp
qed

lemma append_data_step:
  assumes name: "r_name r = Some n" and d: "file_bytes fs r = Some d" and big: "length d < 2 ^ 63"
    and step: "byte_buf_align buf 16 = Some b1"
      "byte_buf_append b1 d (of_nat (length d)) = Some (b2, off1)"
  shows "append_data fs buf (r # rs) = do {
    rest \<leftarrow> append_data fs b2 rs;
    Some (case rest of Inl e \<Rightarrow> Inl e
      | Inr (buf', places) \<Rightarrow> Inr (buf', \<lparr>p_offset = bb_len b1, p_size = of_nat (length d),
          p_checksum = elfr_crc64 d\<rparr> # places)) }"
proof -
  from d obtain path f where f: "r_file r = Some path" "fs path = Some f" "0 \<le> of_size f"
    "nat (of_size f) = length d"
    "(if of_size f > 0 then fread f (nat (of_size f)) else []) = d" by (rule file_bytes_read)
  have size: "of_size f = int (length d)" using f(3,4) by linarith
  show ?thesis
  proof (cases "d = []")
    case True
    then have zero: "of_size f = 0" using size by simp
    have step0: "byte_buf_align buf 16 = Some b1" "byte_buf_append b1 [] 0 = Some (b2, off1)"
      using step True by simp_all
    show ?thesis
      by (cases "append_data fs b2 rs") (simp_all add: True Let_def name f(1,2) zero step0 split: sum.split)
  next
    case False
    then have "fread f (length d) = d" using f(5) size by simp
    then show ?thesis using name f(1,2) step False size
      by (cases "append_data fs b2 rs") (simp_all add: Let_def split: sum.split)
  qed
qed

lemma append_data_spec:
  assumes "holds buf bs" and "named rs ns" and "map (file_bytes fs) rs = map Some ds"
    and "base \<le> length bs" and "length bs + data_size ds \<le> 2 ^ 62"
  shows "\<exists>buf' ps ext. append_data fs buf rs = Some (Inr (buf', ps)) \<and> holds buf' (bs @ ext)
    \<and> length ext \<le> data_size ds \<and> length ps = length rs
    \<and> (\<forall>i < length rs. place_at base (bs @ ext) (ps ! i) (ds ! i))"
  using assms
proof (induction rs arbitrary: buf bs ns ds)
  case Nil
  then show ?case by (auto intro: exI [of _ "[]"])
next
  case (Cons r rs)
  then obtain n ns' d ds' where ns: "r_name r = Some n" "named rs ns'"
    and ds: "ds = d # ds'" "file_bytes fs r = Some d" "map (file_bytes fs) rs = map Some ds'"
    by (cases ds) auto
  have size: "length bs + (16 + length d) \<le> 2 ^ 63" "length d < 2 ^ 63"
    using Cons.prems(5) ds(1) by simp_all
  from append_data_file [OF Cons.prems(1,4) size(1)] obtain b1 b2 off1 ext1 where
    step: "byte_buf_align buf 16 = Some b1" "byte_buf_append b1 d (of_nat (length d)) = Some (b2, off1)"
    and h2: "holds b2 (bs @ ext1)" and e1: "length ext1 \<le> 16 + length d"
    and at: "place_at base (bs @ ext1)
        \<lparr>p_offset = bb_len b1, p_size = of_nat (length d), p_checksum = elfr_crc64 d\<rparr> d" by auto
  have "base \<le> length (bs @ ext1)" "length (bs @ ext1) + data_size ds' \<le> 2 ^ 62"
    using Cons.prems(4,5) ds(1) e1 by simp_all
  from Cons.IH [OF h2 ns(2) ds(3) this] obtain buf' ps ext where
    run: "append_data fs b2 rs = Some (Inr (buf', ps))" and h': "holds buf' ((bs @ ext1) @ ext)"
    and e: "length ext \<le> data_size ds'" and len: "length ps = length rs"
    and rest: "\<forall>i < length rs. place_at base ((bs @ ext1) @ ext) (ps ! i) (ds' ! i)" by auto
  let ?p = "\<lparr>p_offset = bb_len b1, p_size = of_nat (length d), p_checksum = elfr_crc64 d\<rparr>"
  have "\<forall>i < length (r # rs). place_at base (bs @ ext1 @ ext) ((?p # ps) ! i) (ds ! i)"
    using rest place_at_append [OF at, of ext] ds(1) by (auto simp: nth_Cons split: nat.splits)
  moreover have "append_data fs buf (r # rs) = Some (Inr (buf', ?p # ps))"
    using run by (simp only: append_data_step [OF ns(1) ds(2) size(2) step]) simp
  ultimately show ?case
    using h' e e1 len ds(1)
    by (intro exI [of _ buf'] exI [of _ "?p # ps"] exI [of _ "ext1 @ ext"]) simp
qed

text \<open>The first file that cannot be read stops the loop with its error.\<close>

lemma append_data_unreadable:
  assumes name: "r_name r = Some n" and path: "r_file r = Some path"
    and none: "file_bytes fs r = None" and long: "long_sizes fs"
  shows "append_data fs buf (r # rs)
    = Some (Inl (if fs path = None then CannotOpenForReading n path else ShortRead n path))"
proof (cases "fs path")
  case None
  then show ?thesis using name path by simp
next
  case (Some f)
  let ?d = "if of_size f > 0 then fread f (nat (of_size f)) else []"
  have range: "- (2 ^ 63) \<le> of_size f" "of_size f < 2 ^ 63"
    using long Some by (auto simp: long_sizes_def)
  from none path Some have bad: "of_size f < 0 \<or> length (of_bytes f) < nat (of_size f)"
    by (auto simp: file_bytes_def not_le split: if_splits)
  have "(of_nat (length ?d) :: u64) \<noteq> of_int (of_size f)"
  proof (cases "of_size f < 0")
    case True
    have "of_int (of_size f) \<noteq> (0 :: u64)"
    proof
      assume "of_int (of_size f) = (0 :: u64)"
      then have "2 ^ 64 dvd of_size f" by (simp add: word_of_int_eq_0_iff)
      then obtain k where "of_size f = 18446744073709551616 * k" by auto
      moreover from this True have "k < 0" by simp
      then have "k \<le> - 1" by simp
      moreover have "- 9223372036854775808 \<le> of_size f" using range by simp
      ultimately show False by linarith
    qed
    then show ?thesis using True by simp
  next
    case False
    with bad have less: "length ?d < nat (of_size f)" by (auto simp: fread_def)
    have "nat (of_size f) < 2 ^ 64" using False range by (simp add: nat_less_iff)
    then have "unat (of_nat (length ?d) :: u64) = length ?d"
      using less by (intro unat_of_nat_u64) (rule less_trans)
    moreover have "unat (of_int (of_size f) :: u64) = nat (of_size f)"
      using False range by (intro unat_of_int_u64) simp_all
    ultimately show ?thesis using less by (metis less_irrefl)
  qed
  then show ?thesis using name path Some by (simp add: Let_def)
qed

lemma append_data_fails:
  assumes "holds buf bs" and "named (good @ r # rs) ns" and "map (file_bytes fs) good = map Some ds"
    and "length bs + data_size ds \<le> 2 ^ 62"
    and "r_file r = Some path" and "file_bytes fs r = None" and "long_sizes fs"
  shows "append_data fs buf (good @ r # rs)
    = Some (Inl (if fs path = None then CannotOpenForReading (ns ! length good) path
        else ShortRead (ns ! length good) path))"
  using assms
proof (induction good arbitrary: buf bs ns ds)
  case Nil
  then obtain n ns' where "ns = n # ns'" "r_name r = Some n" by auto
  with append_data_unreadable [OF _ Nil.prems(5,6,7)] show ?case by simp
next
  case (Cons g good)
  then obtain n ns' d ds' where ns: "ns = n # ns'" "r_name g = Some n" "named (good @ r # rs) ns'"
    and ds: "ds = d # ds'" "file_bytes fs g = Some d" "map (file_bytes fs) good = map Some ds'"
    by (cases ds) auto
  have size: "length bs + (16 + length d) \<le> 2 ^ 63" "length d < 2 ^ 63"
    using Cons.prems(4) ds(1) by simp_all
  from append_data_file [OF Cons.prems(1) le0 size(1)] obtain b1 b2 off1 ext1 where
    step: "byte_buf_align buf 16 = Some b1" "byte_buf_append b1 d (of_nat (length d)) = Some (b2, off1)"
    and h2: "holds b2 (bs @ ext1)" and e1: "length ext1 \<le> 16 + length d" by auto
  have "length (bs @ ext1) + data_size ds' \<le> 2 ^ 62" using Cons.prems(4) ds(1) e1 by simp
  from Cons.IH [OF h2 ns(3) ds(3) this Cons.prems(5,6,7)]
  show ?case
    by (simp only: append_Cons append_data_step [OF ns(2) ds(2) size(2) step]) (simp add: ns(1))
qed

end
