(* ===== verification/Container_Layout.thy ===== *)
theory Container_Layout
  imports Container_Data
begin

text \<open>
  The finished container. \<open>container_image\<close> is the abstract specification of a container's
  bytes for a manifest: header, directory, string table, metadata, hash table and data, each at
  the offset the header and the directory give. The builder produces such an image.
\<close>

section \<open>Patching the placeholders\<close>

text \<open>Two images agree from an offset on.\<close>

definition agree_from :: "nat \<Rightarrow> u8 list \<Rightarrow> u8 list \<Rightarrow> bool" where
  "agree_from base bs bs' \<longleftrightarrow> (\<forall>off n. base \<le> off \<longrightarrow> mem_read bs' off n = mem_read bs off n)"

lemma agree_fromD: "agree_from base bs bs' \<Longrightarrow> base \<le> off \<Longrightarrow> mem_read bs' off n = mem_read bs off n"
  by (simp add: agree_from_def)

lemma agree_from_trans: "agree_from b x y \<Longrightarrow> agree_from b y z \<Longrightarrow> agree_from b x z"
  by (simp add: agree_from_def)

lemma agree_from_write:
  "mem_write m off xs = Some m' \<Longrightarrow> off + length xs \<le> base \<Longrightarrow> agree_from base m m'"
  using mem_read_write_after [of m off xs m'] by (auto simp: agree_from_def)

lemma reads_cstr_agree:
  "agree_from base bs bs' \<Longrightarrow> base \<le> off \<Longrightarrow> reads_cstr bs off s \<Longrightarrow> reads_cstr bs' off s"
  by (simp add: reads_cstr_def agree_fromD)

lemma metadata_at_agree:
  "agree_from base bs bs' \<Longrightarrow> metadata_at base bs off kvs \<Longrightarrow> metadata_at base bs' off kvs"
  by (auto simp: metadata_at_def agree_fromD split: if_splits)

lemma hash_table_at_agree:
  "agree_from base bs bs' \<Longrightarrow> base \<le> off \<Longrightarrow> hash_table_at bs off tbl \<Longrightarrow> hash_table_at bs' off tbl"
  by (simp add: hash_table_at_def agree_fromD)

lemma place_at_agree:
  "agree_from base bs bs' \<Longrightarrow> place_at base bs p d \<Longrightarrow> place_at base bs' p d"
  by (simp add: place_at_def agree_fromD)

lemmas agree_lemmas = reads_cstr_agree metadata_at_agree hash_table_at_agree place_at_agree

lemma length_entries: "\<forall>e\<in>set es. entry_ok e \<Longrightarrow> length (concat (map put_entry es)) = 128 * length es"
  using entry_codec.enc_array_length [of es] by (simp add: entry_codec.enc_array_def sizeof_defs)

lemma length_put_header: "header_ok h \<Longrightarrow> length (put_header h) = 160"
  using header_codec.enc_length [of h] by (simp add: sizeof_defs)

lemma poke_directory:
  assumes h: "holds buf bs" and es: "\<forall>e\<in>set es. entry_ok e"
    and room: "160 + 128 * length es \<le> length bs"
  shows "\<exists>buf' bs'. byte_buf_poke buf 160 (concat (map put_entry es)) = Some buf'
    \<and> holds buf' bs' \<and> bb_len buf' = bb_len buf \<and> length bs' = length bs
    \<and> agree_from (160 + 128 * length es) bs bs'
    \<and> mem_read bs' 160 (128 * length es) = Some (concat (map put_entry es))"
proof -
  let ?xs = "concat (map put_entry es)"
  have len: "length ?xs = 128 * length es" using es by (rule length_entries)
  obtain bs' where w: "mem_write bs 160 ?xs = Some bs'"
    using mem_write_defined [of 160 ?xs bs] len room by auto
  then have "mem_write bs (unat (160 :: u64)) ?xs = Some bs'" by simp
  from poke_holds [OF h this] obtain buf' where
    "byte_buf_poke buf 160 ?xs = Some buf'" "holds buf' bs'" "bb_len buf' = bb_len buf" by auto
  moreover have "agree_from (160 + 128 * length es) bs bs'"
    using agree_from_write [OF w] len by simp
  moreover have "mem_read bs' 160 (128 * length es) = Some ?xs"
    using mem_read_write_same [OF w] len by simp
  ultimately show ?thesis using mem_write_length [OF w] by blast
qed

lemma write_at_0:
  "length xs \<le> length m \<Longrightarrow> mem_write m 0 xs = Some (xs @ drop (length xs) m)"
  by (simp add: mem_write_def)

lemma finish_header_spec:
  assumes h: "holds buf bs" and ok: "header_ok header" and room: "160 \<le> length bs"
  shows "\<exists>buf'. finish_header buf header = Some buf' \<and> bb_len buf' = bb_len buf
    \<and> holds buf' (put_header (header\<lparr>h_checksum := elfr_crc64 (put_header header @ drop 160 bs)\<rparr>)
        @ drop 160 bs)"
proof -
  let ?b1 = "put_header header @ drop 160 bs"
  let ?h = "header\<lparr>h_checksum := elfr_crc64 ?b1\<rparr>"
  have ok': "header_ok ?h" using ok by (simp add: header_ok_def)
  have l: "length (put_header header) = 160" "length (put_header ?h) = 160"
    using ok ok' by (simp_all only: length_put_header)
  have "mem_write bs (unat (0 :: u64)) (put_header header) = Some ?b1"
    using write_at_0 [of "put_header header" bs] l(1) room by simp
  from poke_holds [OF h this] obtain buf1 where
    1: "byte_buf_poke buf 0 (put_header header) = Some buf1" "holds buf1 ?b1" "bb_len buf1 = bb_len buf"
    by auto
  have "mem_write ?b1 (unat (0 :: u64)) (put_header ?h) = Some (put_header ?h @ drop 160 bs)"
    using write_at_0 [of "put_header ?h" ?b1] l room by simp
  from poke_holds [OF 1(2) this] obtain buf2 where
    2: "byte_buf_poke buf1 0 (put_header ?h) = Some buf2" "holds buf2 (put_header ?h @ drop 160 bs)"
      "bb_len buf2 = bb_len buf1" by auto
  show ?thesis using 1 2 holds_bytes [OF 1(2)] by (simp add: finish_header_def)
qed

section \<open>The directory\<close>

lemma directory_entries_nth:
  assumes "length nos = length rs" and "length mos = length rs" and "length hs = length rs"
    and "length ps = length rs"
  shows "length (directory_entries rs nos mos hs ps) = length rs
    \<and> (\<forall>i < length rs. directory_entries rs nos mos hs ps ! i
         = directory_entry (rs ! i) (nos ! i) (mos ! i) (hs ! i) (ps ! i))"
  using assms
proof (induction rs arbitrary: nos mos hs ps)
  case Nil
  then show ?case by simp
next
  case (Cons r rs)
  then obtain no nos' mo mos' h hs' p ps' where c: "nos = no # nos'" "mos = mo # mos'"
    "hs = h # hs'" "ps = p # ps'"
    by (auto simp: length_Suc_conv)
  have IH: "length (directory_entries rs nos' mos' hs' ps') = length rs"
    "\<And>i. i < length rs \<Longrightarrow> directory_entries rs nos' mos' hs' ps' ! i
       = directory_entry (rs ! i) (nos' ! i) (mos' ! i) (hs' ! i) (ps' ! i)"
    using Cons.IH [of nos' mos' hs' ps'] Cons.prems c by simp_all
  have "directory_entries (r # rs) nos mos hs ps ! i
      = directory_entry ((r # rs) ! i) (nos ! i) (mos ! i) (hs ! i) (ps ! i)"
    if "i < length (r # rs)" for i
    using that IH(2) by (cases i) (simp_all add: c)
  with IH(1) show ?case by (simp add: c)
qed

lemma directory_entry_ok: "entry_ok (directory_entry r no mo h p)"
  by (simp add: entry_ok_def directory_entry_def)

lemma repeats_name_distinct:
  assumes "named rs ns" and "named earlier es"
  shows "repeats_name earlier rs \<longleftrightarrow> \<not> (distinct ns \<and> set ns \<inter> set es = {})"
  using assms
proof (induction rs arbitrary: ns earlier es)
  case Nil
  then show ?case by simp
next
  case (Cons r rs)
  then obtain n ns' where ns: "ns = n # ns'" "r_name r = Some n" "named rs ns'" by auto
  have e: "named (earlier @ [r]) (es @ [n])" using Cons.prems(2) ns(2) by (simp add: named_def)
  have "map r_name earlier = map Some es" using Cons.prems(2) by (simp add: named_def)
  then have names: "set (map r_name earlier) = set (map Some es)" by (rule arg_cong)
  have "list_ex (\<lambda>q. r_name q = r_name r) earlier \<longleftrightarrow> Some n \<in> set (map r_name earlier)"
    unfolding ns(2) by (induction earlier) auto
  also have "\<dots> \<longleftrightarrow> n \<in> set es" unfolding names by auto
  finally have "list_ex (\<lambda>q. r_name q = r_name r) earlier \<longleftrightarrow> n \<in> set es" .
  then show ?case using Cons.IH [OF ns(3) e] ns by auto
qed

section \<open>The stages of the builder\<close>

lemma align_stage:
  assumes h: "holds buf bs" and a: "0 < unat a" and size: "length bs + unat a \<le> 2 ^ 63"
  obtains buf' k where "byte_buf_align buf a = Some buf'" "holds buf' (bs @ zeros k)" "k < unat a"
    "unat (bb_len buf') mod unat a = 0" "unat (bb_len buf') = length bs + k"
proof -
  obtain buf' where b: "byte_buf_align buf a = Some buf'"
    "holds buf' (bs @ zeros (pad_to (unat a) (length bs)))"
    using align_holds [OF h a size] by auto
  then have "unat (bb_len buf') = length bs + pad_to (unat a) (length bs)" by (simp add: holds_def)
  then show ?thesis using that [OF b] pad_to_less [OF a] pad_to_aligned [OF a] by simp
qed

lemma stage_placeholders:
  assumes n: "n < 2 ^ 25"
  obtains b0 o0 b1 o1 b2 bs where
    "byte_buf_append_zeros byte_buf_empty (of_nat sizeof_ERFHeader) = Some (b0, o0)"
    "bb_len b0 = 160"
    "byte_buf_append_zeros b0 (of_nat n * of_nat sizeof_ERFDirectoryEntry) = Some (b1, o1)"
    "byte_buf_align b1 8 = Some b2" "holds b2 bs"
    "160 + 128 * n \<le> length bs" "length bs < 168 + 128 * n" "length bs mod 8 = 0"
proof -
  obtain b0 where 0: "byte_buf_append_zeros byte_buf_empty (of_nat sizeof_ERFHeader)
      = Some (b0, bb_len byte_buf_empty)" "holds b0 ([] @ zeros 160)"
    using append_zeros_holds [OF holds_empty, of "of_nat sizeof_ERFHeader"] by (auto simp: sizeof_defs)
  have l0: "bb_len b0 = 160" using holds_len [OF 0(2)] by simp
  have sz: "unat ((of_nat n :: u64) * of_nat sizeof_ERFDirectoryEntry) = 128 * n"
  proof -
    have "(of_nat n :: u64) * of_nat sizeof_ERFDirectoryEntry = of_nat (128 * n)"
      by (simp add: sizeof_defs)
    then show ?thesis using n by (simp only:) (rule unat_of_nat_u64, simp)
  qed
  obtain b1 where 1: "byte_buf_append_zeros b0 (of_nat n * of_nat sizeof_ERFDirectoryEntry)
      = Some (b1, bb_len b0)" "holds b1 (zeros 160 @ zeros (128 * n))"
    using append_zeros_holds [OF 0(2), of "of_nat n * of_nat sizeof_ERFDirectoryEntry"] sz n by auto
  obtain b2 k where 2: "byte_buf_align b1 8 = Some b2"
    "holds b2 ((zeros 160 @ zeros (128 * n)) @ zeros k)" "k < unat (8 :: u64)"
    "unat (bb_len b2) mod unat (8 :: u64) = 0"
    by (rule align_stage [OF 1(2), of 8]) (use n in auto)
  from 2(2) have "unat (bb_len b2) = length ((zeros 160 @ zeros (128 * n)) @ zeros k)"
    by (simp add: holds_def)
  with 2(3,4) show ?thesis by (intro that [OF 0(1) l0 1(1) 2(1,2)]) simp_all
qed

lemma stage_strings:
  assumes h: "holds buf bs" and nm: "named rs ns" and base: "base \<le> length bs"
    and size: "length bs + names_size ns \<le> 2 ^ 32"
  obtains st b1 offs b2 ext where "intern_names [] buf tb rs = Some (st, b1, offs)"
    "byte_buf_align b1 8 = Some b2" "holds b2 (bs @ ext)" "length ext < names_size ns + 8"
    "unat (bb_len b2) mod 8 = 0" "length offs = length rs"
    "mem_read (bs @ ext) (length bs) (names_size (add_names [] ns)) = Some (strings_bytes (add_names [] ns))"
    "\<forall>i < length rs. base \<le> unat (offs ! i) \<and> reads_cstr (bs @ ext) (unat (offs ! i)) (ns ! i)"
    "\<forall>i < length rs. \<forall>j < length rs. ns ! i = ns ! j \<longrightarrow> offs ! i = offs ! j"
proof -
  have "strtab_ok base [] bs" by (simp add: strtab_ok_def)
  from intern_names_spec [OF h this nm base size, of tb] obtain st b1 offs new where
    run: "intern_names [] buf tb rs = Some (st, b1, offs)"
    and st: "map se_name st = add_names [] ns" and new: "add_names [] ns = new"
    and h1: "holds b1 (bs @ strings_bytes new)" and ok: "strtab_ok base st (bs @ strings_bytes new)"
    and sz: "names_size new \<le> names_size ns" and len: "length offs = length rs"
    and e: "\<forall>i < length rs. \<exists>e\<in>set st. se_name e = ns ! i \<and> se_offset e = offs ! i" by auto
  have room: "length (bs @ strings_bytes new) + unat (8 :: u64) \<le> 2 ^ 63"
    using size sz by (simp add: length_strings_bytes)
  obtain b2 k where
    al: "byte_buf_align b1 8 = Some b2" "holds b2 ((bs @ strings_bytes new) @ zeros k)"
      "k < unat (8 :: u64)" "unat (bb_len b2) mod unat (8 :: u64) = 0"
    by (rule align_stage [OF h1 _ room]) simp
  let ?ext = "strings_bytes new @ zeros k"
  have "mem_read (bs @ strings_bytes new) (length bs) (names_size new) = Some (strings_bytes new)"
    by (rule mem_read_end) (simp add: length_strings_bytes)
  then have strs: "mem_read (bs @ ?ext) (length bs) (names_size new) = Some (strings_bytes new)"
    by (metis append.assoc mem_read_append)
  have offs: "base \<le> unat (offs ! i) \<and> reads_cstr (bs @ ?ext) (unat (offs ! i)) (ns ! i)"
    if i: "i < length rs" for i
  proof -
    from e i obtain x where "x \<in> set st" "se_name x = ns ! i" "se_offset x = offs ! i" by blast
    with ok have "base \<le> unat (offs ! i)" "reads_cstr (bs @ strings_bytes new) (unat (offs ! i)) (ns ! i)"
      by (auto simp: strtab_ok_def)
    then show ?thesis using reads_cstr_append by (metis append.assoc)
  qed
  have dist: "distinct (map se_name st)" using st distinct_add_names [of "[]" ns] by simp
  have same: "offs ! i = offs ! j" if ij: "i < length rs" "j < length rs" "ns ! i = ns ! j" for i j
  proof -
    from e ij obtain x y where x: "x \<in> set st" "se_name x = ns ! i" "se_offset x = offs ! i"
      and y: "y \<in> set st" "se_name y = ns ! j" "se_offset y = offs ! j" by blast
    have "inj_on se_name (set st)" using dist by (simp add: distinct_map)
    then have "x = y" by (rule inj_onD) (simp_all add: x y ij)
    with x y show ?thesis by simp
  qed
  have l: "length ?ext < names_size ns + 8" using al(3) sz by (simp add: length_strings_bytes)
  have h2: "holds b2 (bs @ ?ext)" using al(2) by simp
  show ?thesis
  proof (rule that [OF run al(1) h2 l _ len])
    show "unat (bb_len b2) mod 8 = 0" using al(4) by simp
    show "mem_read (bs @ ?ext) (length bs) (names_size (add_names [] ns)) = Some (strings_bytes (add_names [] ns))"
      using strs new by simp
    show "\<forall>i < length rs. base \<le> unat (offs ! i) \<and> reads_cstr (bs @ ?ext) (unat (offs ! i)) (ns ! i)"
      using offs by blast
    show "\<forall>i < length rs. \<forall>j < length rs. ns ! i = ns ! j \<longrightarrow> offs ! i = offs ! j"
      using same by blast
  qed
qed


lemma stage_metadata:
  assumes h: "holds buf bs" and ne: "bs \<noteq> []" and base: "base \<le> length bs"
    and size: "length bs + metadata_size rs < 2 ^ 32"
  obtains b1 offs b2 ext where
    "append_metadata buf False rs = Some (b1, \<exists>r\<in>set rs. r_metadata r \<noteq> [], offs)"
    "byte_buf_align b1 8 = Some b2" "holds b2 (bs @ ext)" "length ext < metadata_size rs + 8"
    "unat (bb_len b2) mod 8 = 0" "length offs = length rs"
    "\<forall>i < length rs. metadata_at base (bs @ ext) (offs ! i) (r_metadata (rs ! i))"
proof -
  from append_metadata_spec [OF h ne base size, of False] obtain b1 offs ext1 where
    run: "append_metadata buf False rs = Some (b1, \<exists>r\<in>set rs. r_metadata r \<noteq> [], offs)"
    and h1: "holds b1 (bs @ ext1)" and sz: "length ext1 \<le> metadata_size rs"
    and len: "length offs = length rs"
    and at: "\<forall>i < length rs. metadata_at base (bs @ ext1) (offs ! i) (r_metadata (rs ! i))" by auto
  have room: "length (bs @ ext1) + unat (8 :: u64) \<le> 2 ^ 63" using size sz by simp
  obtain b2 k where al: "byte_buf_align b1 8 = Some b2" "holds b2 ((bs @ ext1) @ zeros k)"
      "k < unat (8 :: u64)" "unat (bb_len b2) mod unat (8 :: u64) = 0"
    by (rule align_stage [OF h1 _ room]) simp
  have h2: "holds b2 (bs @ ext1 @ zeros k)" using al(2) by simp
  have at2: "\<forall>i < length rs. metadata_at base (bs @ ext1 @ zeros k) (offs ! i) (r_metadata (rs ! i))"
    using at metadata_at_append [of base "bs @ ext1" _ _ "zeros k"] by simp
  show ?thesis
    by (rule that [OF run al(1) h2 _ _ len at2]) (use al(3,4) sz in auto)
qed

lemma stage_hash_table:
  assumes h: "holds buf bs" and nm: "named rs ns" and n: "length rs < 2 ^ 25"
    and size: "length bs + table_size (length rs) < 2 ^ 32"
  obtains b1 b2 tbl ext where
    "append_hash_table buf (of_nat (length rs)) rs = Some (b1, map name_hash ns)"
    "byte_buf_align b1 16 = Some b2" "holds b2 (bs @ ext)"
    "length ext < table_size (length rs) + 16" "unat (bb_len b2) mod 16 = 0"
    "hash_table_at (bs @ ext) (length bs) tbl" "length bs + (8 + 16 * length tbl) \<le> unat (bb_len b2)"
    "16 \<le> length tbl" "length tbl \<le> 2 ^ 31" "index_represents tbl ns"
proof -
  have room: "length bs + table_size (length rs) \<le> 2 ^ 63" using size by simp
  from append_hash_table_spec [OF h nm n room] obtain b1 tbl where
    run: "append_hash_table buf (of_nat (length rs)) rs = Some (b1, map name_hash ns)"
    and h1: "holds b1 (bs @ put_hash_header \<lparr>t_bucket_count = of_nat (length tbl), t_reserved0 = 0\<rparr>
        @ concat (map put_bucket tbl))"
    and sz: "8 + 16 * length tbl \<le> table_size (length rs)" and t: "16 \<le> length tbl"
      "length tbl \<le> 2 ^ 31" "index_represents tbl ns" by auto
  let ?hh = "put_hash_header \<lparr>t_bucket_count = of_nat (length tbl), t_reserved0 = 0\<rparr>"
  let ?bb = "concat (map put_bucket tbl)"
  have l: "length ?hh = 8" "length ?bb = 16 * length tbl"
    by (simp_all add: put_hash_header_def length_buckets)
  have room1: "length (bs @ ?hh @ ?bb) + unat (16 :: u64) \<le> 2 ^ 63" using size sz l by simp
  obtain b2 k where al: "byte_buf_align b1 16 = Some b2" "holds b2 ((bs @ ?hh @ ?bb) @ zeros k)"
      "k < unat (16 :: u64)" "unat (bb_len b2) mod unat (16 :: u64) = 0"
      "unat (bb_len b2) = length (bs @ ?hh @ ?bb) + k"
    by (rule align_stage [OF h1 _ room1]) simp
  let ?ext = "?hh @ ?bb @ zeros k"
  have at: "hash_table_at (bs @ ?ext) (length bs) tbl"
    using l mem_read_mid [of "length bs" bs 8 ?hh "?bb @ zeros k"]
      mem_read_mid [of "length bs + 8" "bs @ ?hh" "16 * length tbl" ?bb "zeros k"]
    by (simp add: hash_table_at_def)
  have h2: "holds b2 (bs @ ?ext)" using al(2) by simp
  show ?thesis
    by (rule that [OF run al(1) h2 _ _ at _ t]) (use al(3,4,5) sz l in auto)
qed

section \<open>The specification of a container\<close>

definition has_metadata :: "elfrc_resource list \<Rightarrow> bool" where
  "has_metadata rs \<longleftrightarrow> (\<exists>r\<in>set rs. r_metadata r \<noteq> [])"

definition expected_flags :: "elfrc_resource list \<Rightarrow> string list \<Rightarrow> u32" where
  "expected_flags rs ns = ERF_HFLAG_HASH_TABLE_PRESENT
     OR (if has_metadata rs then ERF_HFLAG_METADATA_PRESENT else 0)
     OR (if distinct ns then 0 else ERF_HFLAG_LOCALIZED)"

definition header_describes :: "memory \<Rightarrow> elfrc_resource list \<Rightarrow> string list \<Rightarrow> nat \<Rightarrow> ERFHeader \<Rightarrow> bool"
  where
  "header_describes img rs ns buckets h \<longleftrightarrow>
     h_magic h = ERF_MAGIC \<and> h_version_major h = ERF_VERSION_MAJOR
     \<and> h_version_minor h = ERF_VERSION_MINOR \<and> h_header_size h = 160
     \<and> h_flags h = expected_flags rs ns
     \<and> h_resource_count h = of_nat (length rs) \<and> h_directory_entry_size h = 128
     \<and> h_directory_offset h = 160
     \<and> 160 + 128 * length rs \<le> unat (h_string_offset h) \<and> unat (h_string_offset h) mod 8 = 0
     \<and> mem_read img (unat (h_string_offset h)) (names_size (add_names [] ns))
         = Some (strings_bytes (add_names [] ns))
     \<and> (if has_metadata rs
        then unat (h_string_offset h) + names_size (add_names [] ns) \<le> unat (h_metadata_offset h)
          \<and> unat (h_metadata_offset h) \<le> unat (h_hash_table_offset h) \<and> unat (h_metadata_offset h) mod 8 = 0
        else h_metadata_offset h = 0)
     \<and> unat (h_string_offset h) + names_size (add_names [] ns) \<le> unat (h_hash_table_offset h)
     \<and> unat (h_hash_table_offset h) mod 8 = 0
     \<and> unat (h_hash_table_offset h) + (8 + 16 * buckets) \<le> unat (h_data_offset h)
     \<and> unat (h_data_offset h) mod 16 = 0 \<and> unat (h_data_offset h) \<le> length img
     \<and> h_signature_offset h = 0 \<and> unat (h_total_size h) = length img
     \<and> h_checksum h = elfr_crc64 (put_header (h\<lparr>h_checksum := 0\<rparr>) @ drop 160 img)
     \<and> h_reserved0 h = 0 \<and> h_reserved h = replicate 8 0"

definition entry_describes ::
    "memory \<Rightarrow> nat \<Rightarrow> elfrc_resource \<Rightarrow> string \<Rightarrow> u8 list \<Rightarrow> ERFDirectoryEntry \<Rightarrow> bool" where
  "entry_describes img base r n d e \<longleftrightarrow>
     d_id e = r_final_id r \<and> d_type e = r_type r \<and> d_language e = r_language r
     \<and> d_flags e = r_flags r \<and> d_hash e = name_hash n \<and> d_original_size e = d_data_size e
     \<and> base \<le> unat (d_name_offset e) \<and> reads_cstr img (unat (d_name_offset e)) n
     \<and> place_at base img
         \<lparr>p_offset = d_data_offset e, p_size = d_data_size e, p_checksum = d_checksum e\<rparr> d
     \<and> metadata_at base img (d_metadata_offset e) (r_metadata r)
     \<and> d_timestamp e = 0 \<and> d_reserved0 e = 0 \<and> d_reserved e = replicate 6 0"

definition container_image ::
    "memory \<Rightarrow> elfrc_resource list \<Rightarrow> string list \<Rightarrow> u8 list list \<Rightarrow> ERFHeader
      \<Rightarrow> ERFDirectoryEntry list \<Rightarrow> ERFHashBucket list \<Rightarrow> bool" where
  "container_image img rs ns ds h es tbl \<longleftrightarrow>
     mem_read img 0 160 = Some (put_header h) \<and> header_describes img rs ns (length tbl) h
     \<and> mem_read img 160 (128 * length rs) = Some (concat (map put_entry es))
     \<and> length es = length rs
     \<and> (\<forall>i < length rs. entry_describes img (160 + 128 * length rs) (rs ! i) (ns ! i) (ds ! i) (es ! i))
     \<and> (\<forall>i < length rs. \<forall>j < length rs.
          ns ! i = ns ! j \<longrightarrow> d_name_offset (es ! i) = d_name_offset (es ! j))
     \<and> hash_table_at img (unat (h_hash_table_offset h)) tbl
     \<and> 16 \<le> length tbl \<and> length tbl \<le> 2 ^ 31 \<and> index_represents tbl ns"

text \<open>An upper bound of everything before the resource data, and the room the code needs.\<close>

definition index_size :: "elfrc_resource list \<Rightarrow> string list \<Rightarrow> nat" where
  "index_size rs ns =
     200 + 128 * length rs + names_size ns + metadata_size rs + table_size (length rs)"

definition container_fits :: "elfrc_resource list \<Rightarrow> string list \<Rightarrow> u8 list list \<Rightarrow> bool" where
  "container_fits rs ns ds \<longleftrightarrow>
     index_size rs ns < 2 ^ 32 \<and> index_size rs ns + data_size ds \<le> 2 ^ 62"

lemma fits_count: "index_size rs ns < 2 ^ 32 \<Longrightarrow> length rs < 2 ^ 25"
  by (simp add: index_size_def)

section \<open>The builder up to the resource data\<close>

lemma build_front:
  assumes nm: "named (mf_resources m) ns" and fits: "index_size (mf_resources m) ns < 2 ^ 32"
  obtains buf bs nos mos so ms ho tbl where
    "elfrc_container_build fs m = Option.bind (append_data fs buf (mf_resources m))
       (\<lambda>res. case res of Inl e \<Rightarrow> Some (Inl e)
        | Inr (buf', places) \<Rightarrow> map_option Inr (container_finish (mf_resources m) buf' nos mos
            (map name_hash ns) places (has_metadata (mf_resources m)) 160 so
            (if has_metadata (mf_resources m) then ms else 0) ho (bb_len buf)))"
    "holds buf bs" "length bs \<le> index_size (mf_resources m) ns"
    "160 + 128 * length (mf_resources m) \<le> unat so" "unat so mod 8 = 0"
    "mem_read bs (unat so) (names_size (add_names [] ns)) = Some (strings_bytes (add_names [] ns))"
    "unat so + names_size (add_names [] ns) \<le> unat ms" "unat ms mod 8 = 0" "unat ms \<le> unat ho"
    "unat ho mod 8 = 0" "unat ho + (8 + 16 * length tbl) \<le> length bs" "length bs mod 16 = 0"
    "length nos = length (mf_resources m)" "length mos = length (mf_resources m)"
    "\<forall>i < length (mf_resources m). 160 + 128 * length (mf_resources m) \<le> unat (nos ! i)
       \<and> reads_cstr bs (unat (nos ! i)) (ns ! i)"
    "\<forall>i < length (mf_resources m). \<forall>j < length (mf_resources m). ns ! i = ns ! j \<longrightarrow> nos ! i = nos ! j"
    "\<forall>i < length (mf_resources m). metadata_at (160 + 128 * length (mf_resources m)) bs (mos ! i)
       (r_metadata (mf_resources m ! i))"
    "hash_table_at bs (unat ho) tbl" "16 \<le> length tbl" "length tbl \<le> 2 ^ 31" "index_represents tbl ns"
proof -
  let ?rs = "mf_resources m"
  let ?n = "length ?rs"
  let ?base = "160 + 128 * ?n"
  have n: "?n < 2 ^ 25" using fits by (rule fits_count)
  obtain b0 o0 b1 o1 b2 bs2 where s0:
    "byte_buf_append_zeros byte_buf_empty (of_nat sizeof_ERFHeader) = Some (b0, o0)" "bb_len b0 = 160"
    "byte_buf_append_zeros b0 (of_nat ?n * of_nat sizeof_ERFDirectoryEntry) = Some (b1, o1)"
    "byte_buf_align b1 8 = Some b2" "holds b2 bs2" "?base \<le> length bs2" "length bs2 < 168 + 128 * ?n"
    "length bs2 mod 8 = 0" using n by (rule stage_placeholders)
  have len2: "unat (bb_len b2) = length bs2" using s0(5) by (simp add: holds_def)
  have "length bs2 + names_size ns \<le> 2 ^ 32" using s0(7) fits by (simp add: index_size_def)
  then obtain st b3 nos b4 e1 where s1: "intern_names [] b2 (ucast (bb_len b2)) ?rs = Some (st, b3, nos)"
    "byte_buf_align b3 8 = Some b4" "holds b4 (bs2 @ e1)" "length e1 < names_size ns + 8"
    "unat (bb_len b4) mod 8 = 0" "length nos = ?n"
    "mem_read (bs2 @ e1) (length bs2) (names_size (add_names [] ns)) = Some (strings_bytes (add_names [] ns))"
    "\<forall>i < ?n. ?base \<le> unat (nos ! i) \<and> reads_cstr (bs2 @ e1) (unat (nos ! i)) (ns ! i)"
    "\<forall>i < ?n. \<forall>j < ?n. ns ! i = ns ! j \<longrightarrow> nos ! i = nos ! j"
    by (rule stage_strings [OF s0(5) nm s0(6)])
  have len4: "unat (bb_len b4) = length (bs2 @ e1)" using s1(3) by (simp add: holds_def)
  have "bs2 @ e1 \<noteq> []" "?base \<le> length (bs2 @ e1)" using s0(6) by auto
  moreover have "length (bs2 @ e1) + metadata_size ?rs < 2 ^ 32"
    using s0(7) s1(4) fits by (simp add: index_size_def)
  ultimately obtain b5 mos b6 e2 where s2: "append_metadata b4 False ?rs
      = Some (b5, \<exists>r\<in>set ?rs. r_metadata r \<noteq> [], mos)"
    "byte_buf_align b5 8 = Some b6" "holds b6 ((bs2 @ e1) @ e2)" "length e2 < metadata_size ?rs + 8"
    "unat (bb_len b6) mod 8 = 0" "length mos = ?n"
    "\<forall>i < ?n. metadata_at ?base ((bs2 @ e1) @ e2) (mos ! i) (r_metadata (?rs ! i))"
    by (rule stage_metadata [OF s1(3)])
  have len6: "unat (bb_len b6) = length ((bs2 @ e1) @ e2)" using s2(3) by (simp add: holds_def)
  have "length ((bs2 @ e1) @ e2) + table_size ?n < 2 ^ 32"
    using s0(7) s1(4) s2(4) fits by (simp add: index_size_def)
  then obtain b7 b8 tbl e3 where s3: "append_hash_table b6 (of_nat ?n) ?rs = Some (b7, map name_hash ns)"
    "byte_buf_align b7 16 = Some b8" "holds b8 (((bs2 @ e1) @ e2) @ e3)"
    "length e3 < table_size ?n + 16" "unat (bb_len b8) mod 16 = 0"
    "hash_table_at (((bs2 @ e1) @ e2) @ e3) (length ((bs2 @ e1) @ e2)) tbl"
    "length ((bs2 @ e1) @ e2) + (8 + 16 * length tbl) \<le> unat (bb_len b8)"
    "16 \<le> length tbl" "length tbl \<le> 2 ^ 31" "index_represents tbl ns"
    by (rule stage_hash_table [OF s2(3) nm n])
  let ?bs = "((bs2 @ e1) @ e2) @ e3"
  have len8: "unat (bb_len b8) = length ?bs" using s3(3) by (simp add: holds_def)
  have eq: "elfrc_container_build fs m = Option.bind (append_data fs b8 ?rs)
       (\<lambda>res. case res of Inl e \<Rightarrow> Some (Inl e)
        | Inr (buf', places) \<Rightarrow> map_option Inr (container_finish ?rs buf' nos mos
            (map name_hash ns) places (has_metadata ?rs) 160 (bb_len b2)
            (if has_metadata ?rs then bb_len b4 else 0) (bb_len b6) (bb_len b8)))"
    unfolding elfrc_container_build_def
    by (simp add: Let_def s0(1-4) s1(1,2) s2(1,2) [folded has_metadata_def] s3(1,2) del: append_data.simps)
  have strs: "mem_read ?bs (length bs2) (names_size (add_names [] ns)) = Some (strings_bytes (add_names [] ns))"
    using s1(7) by (simp only: mem_read_append)
  have "length bs2 + names_size (add_names [] ns) \<le> length (bs2 @ e1)" using s1(7) by (rule mem_read_bound)
  note bounds = this s0(6,7,8) s1(4,5) s2(4,5) s3(4,5,7) len2 len4 len6 len8
  have size: "length ?bs \<le> index_size ?rs ns" using bounds by (simp add: index_size_def)
  have names: "\<forall>i < ?n. ?base \<le> unat (nos ! i) \<and> reads_cstr ?bs (unat (nos ! i)) (ns ! i)"
    using s1(8) reads_cstr_append by blast
  have meta: "\<forall>i < ?n. metadata_at ?base ?bs (mos ! i) (r_metadata (?rs ! i))"
    using s2(7) metadata_at_append by blast
  show ?thesis
    by (rule that [OF eq s3(3) size _ _ _ _ _ _ _ _ _ s1(6) s2(6) names s1(9) meta _ s3(8,9,10)])
      (use bounds strs s3(6) in simp_all)
qed

section \<open>The finished container\<close>

lemma container_finish_spec:
  assumes h: "holds buf bs" and nm: "named rs ns" and room: "160 + 128 * length rs \<le> length bs"
    and l: "length nos = length rs" "length mos = length rs" "length ps = length rs"
  defines "es \<equiv> directory_entries rs nos mos (map name_hash ns) ps"
  obtains c crc where
    "container_finish rs buf nos mos (map name_hash ns) ps any 160 so mo ho doff = Some c"
    "length (ec_data c) = length bs" "unat (ec_size c) = length bs"
    "agree_from (160 + 128 * length rs) bs (ec_data c)"
    "mem_read (ec_data c) 160 (128 * length rs) = Some (concat (map put_entry es))"
    "mem_read (ec_data c) 0 160 = Some (put_header
       ((container_header (of_nat (length rs)) any (\<not> distinct ns) 160 so mo ho doff (of_nat (length bs)))
          \<lparr>h_checksum := crc\<rparr>))"
    "crc = elfr_crc64 (put_header (container_header (of_nat (length rs)) any (\<not> distinct ns) 160 so mo ho
        doff (of_nat (length bs))) @ drop 160 (ec_data c))"
proof -
  have hs: "length (map name_hash ns) = length rs" using named_length [OF nm] by simp
  note nth = directory_entries_nth [OF l(1,2) hs l(3)]
  have les: "length es = length rs" using nth by (simp add: es_def)
  have ok: "\<forall>e\<in>set es. entry_ok e"
    using nth directory_entry_ok by (auto simp: es_def in_set_conv_nth)
  from poke_directory [OF h ok] room les obtain b1 bs1 where
    1: "byte_buf_poke buf 160 (concat (map put_entry es)) = Some b1" "holds b1 bs1"
      "bb_len b1 = bb_len buf" "length bs1 = length bs" "agree_from (160 + 128 * length rs) bs bs1"
      "mem_read bs1 160 (128 * length rs) = Some (concat (map put_entry es))" by auto
  have len: "bb_len b1 = of_nat (length bs)" using holds_len [OF 1(2)] 1(4) by simp
  let ?h = "container_header (of_nat (length rs)) any (\<not> distinct ns) 160 so mo ho doff (of_nat (length bs))"
  let ?crc = "elfr_crc64 (put_header ?h @ drop 160 bs1)"
  let ?h' = "?h\<lparr>h_checksum := ?crc\<rparr>"
  let ?img = "put_header ?h' @ drop 160 bs1"
  have okh: "header_ok ?h" "header_ok ?h'"
    by (simp_all add: header_ok_def container_header_def ERF_MAGIC_def)
  have lh: "length (put_header ?h') = 160" using okh(2) by (rule length_put_header)
  from finish_header_spec [OF 1(2) okh(1)] room 1(4) obtain b2 where
    2: "finish_header b1 ?h = Some b2" "bb_len b2 = bb_len b1" "holds b2 ?img" by auto
  have rep: "repeats_name [] rs \<longleftrightarrow> \<not> distinct ns" using repeats_name_distinct [OF nm] by force
  let ?c = "\<lparr>ec_data = ?img, ec_size = bb_len b2\<rparr>"
  have run: "container_finish rs buf nos mos (map name_hash ns) ps any 160 so mo ho doff = Some ?c"
    using 1(1) 2(1) holds_bytes [OF 2(3)] len rep by (simp add: container_finish_def es_def)
  have limg: "length ?img = length bs" using lh room 1(4) by simp
  have "mem_write bs1 0 (put_header ?h') = Some ?img"
    using write_at_0 [of "put_header ?h'" bs1] lh room 1(4) by simp
  then have a: "agree_from 160 bs1 ?img" by (rule agree_from_write) (simp only: lh add_0 order_refl)
  show ?thesis
  proof (rule that [OF run])
    show "agree_from (160 + 128 * length rs) bs (ec_data ?c)"
      using agree_from_trans [OF 1(5), of ?img] a by (simp add: agree_from_def)
    show "mem_read (ec_data ?c) 160 (128 * length rs) = Some (concat (map put_entry es))"
      using 1(6) a by (simp add: agree_from_def)
    show "unat (ec_size ?c) = length bs" using 2(2,3) limg by (simp add: holds_def)
    show "mem_read (ec_data ?c) 0 160 = Some (put_header ?h')" using lh by (simp add: mem_read_def)
    show "?crc = elfr_crc64 (put_header ?h @ drop 160 (ec_data ?c))" using lh by simp
    show "length (ec_data ?c) = length bs" using limg by simp
  qed
qed

lemma header_describes_intro:
  assumes n: "length rs < 2 ^ 25" and tsize: "unat tsize = length img"
    and so: "160 + 128 * length rs \<le> unat so" "unat so mod 8 = 0"
    and ms: "unat so + names_size (add_names [] ns) \<le> unat ms" "unat ms mod 8 = 0" "unat ms \<le> unat ho"
    and ho: "unat ho mod 8 = 0" "unat ho + (8 + 16 * buckets) \<le> unat doff"
    and doff: "unat doff mod 16 = 0" "unat doff \<le> length img"
    and strs: "mem_read img (unat so) (names_size (add_names [] ns)) = Some (strings_bytes (add_names [] ns))"
  defines "h0 \<equiv> container_header (of_nat (length rs)) (has_metadata rs) (\<not> distinct ns) 160 so
    (if has_metadata rs then ms else 0) ho doff tsize"
  shows "header_describes img rs ns buckets
    (h0\<lparr>h_checksum := elfr_crc64 (put_header h0 @ drop 160 img)\<rparr>)"
proof -
  have "unat (ucast (of_nat (length rs) :: u64) :: u32) = unat (of_nat (length rs) :: u32)"
    using n by (simp add: unat_ucast_u64_u32 unat_of_nat_u64 unat_of_nat_u32)
  then have count: "(ucast (of_nat (length rs) :: u64) :: u32) = of_nat (length rs)"
    by (rule unsigned_word_eqI)
  have zero: "h0\<lparr>h_checksum := crc\<rparr>\<lparr>h_checksum := 0\<rparr> = h0" for crc
    by (simp add: h0_def container_header_def)
  have flags: "h_flags h0 = expected_flags rs ns"
    by (simp add: h0_def container_header_def expected_flags_def)
  show ?thesis
    unfolding header_describes_def zero
    using assms(2-12) count flags by (simp add: h0_def container_header_def sizeof_defs)
qed

lemma place_at_fields [simp]:
  "place_at base bs \<lparr>p_offset = p_offset p, p_size = p_size p, p_checksum = p_checksum p\<rparr> d
     = place_at base bs p d"
  by (simp add: place_at_def)

lemma entries_describe:
  assumes l: "length nos = length rs" "length mos = length rs" "length ns = length rs"
      "length ps = length rs"
    and agree: "agree_from base bs img"
    and names: "\<forall>i < length rs. base \<le> unat (nos ! i) \<and> reads_cstr bs (unat (nos ! i)) (ns ! i)"
    and meta: "\<forall>i < length rs. metadata_at base bs (mos ! i) (r_metadata (rs ! i))"
    and places: "\<forall>i < length rs. place_at base bs (ps ! i) (ds ! i)"
  defines "es \<equiv> directory_entries rs nos mos (map name_hash ns) ps"
  shows "length es = length rs
    \<and> (\<forall>i < length rs. entry_describes img base (rs ! i) (ns ! i) (ds ! i) (es ! i)
         \<and> d_name_offset (es ! i) = nos ! i)"
proof -
  have nth: "length es = length rs" "\<And>i. i < length rs \<Longrightarrow> es ! i
      = directory_entry (rs ! i) (nos ! i) (mos ! i) (name_hash (ns ! i)) (ps ! i)"
    using directory_entries_nth [OF l(1,2) _ l(4), of "map name_hash ns"] l(3) by (simp_all add: es_def)
  have "entry_describes img base (rs ! i) (ns ! i) (ds ! i) (es ! i)" if i: "i < length rs" for i
    using names meta places i nth(2) reads_cstr_agree [OF agree] metadata_at_agree [OF agree]
      place_at_agree [OF agree]
    by (simp add: entry_describes_def directory_entry_def)
  then show ?thesis using nth by (simp add: directory_entry_def)
qed

lemma build_image:
  assumes nm: "named (mf_resources m) ns"
    and ds: "map (file_bytes fs) (mf_resources m) = map Some ds"
    and fits: "container_fits (mf_resources m) ns ds"
  obtains c h es tbl where "elfrc_container_build fs m = Some (Inr c)"
    "container_image (ec_data c) (mf_resources m) ns ds h es tbl"
    "unat (ec_size c) = length (ec_data c)"
    "length (ec_data c) \<le> index_size (mf_resources m) ns + data_size ds"
proof -
  let ?rs = "mf_resources m"
  let ?n = "length ?rs"
  let ?base = "160 + 128 * ?n"
  have idx: "index_size ?rs ns < 2 ^ 32" using fits by (simp add: container_fits_def)
  from build_front [OF nm idx, of fs] obtain buf bs nos mos so ms ho tbl where
    eq: "elfrc_container_build fs m = Option.bind (append_data fs buf ?rs)
       (\<lambda>res. case res of Inl e \<Rightarrow> Some (Inl e)
        | Inr (buf', places) \<Rightarrow> map_option Inr (container_finish ?rs buf' nos mos
            (map name_hash ns) places (has_metadata ?rs) 160 so
            (if has_metadata ?rs then ms else 0) ho (bb_len buf)))"
    and h: "holds buf bs" and size: "length bs \<le> index_size ?rs ns"
    and offs: "?base \<le> unat so" "unat so mod 8 = 0"
      "unat so + names_size (add_names [] ns) \<le> unat ms" "unat ms mod 8 = 0" "unat ms \<le> unat ho"
      "unat ho mod 8 = 0" "unat ho + (8 + 16 * length tbl) \<le> length bs" "length bs mod 16 = 0"
    and strs: "mem_read bs (unat so) (names_size (add_names [] ns)) = Some (strings_bytes (add_names [] ns))"
    and lens: "length nos = ?n" "length mos = ?n"
    and names: "\<forall>i < ?n. ?base \<le> unat (nos ! i) \<and> reads_cstr bs (unat (nos ! i)) (ns ! i)"
    and same: "\<forall>i < ?n. \<forall>j < ?n. ns ! i = ns ! j \<longrightarrow> nos ! i = nos ! j"
    and meta: "\<forall>i < ?n. metadata_at ?base bs (mos ! i) (r_metadata (?rs ! i))"
    and tbl: "hash_table_at bs (unat ho) tbl" "16 \<le> length tbl" "length tbl \<le> 2 ^ 31"
      "index_represents tbl ns" .
  have base: "?base \<le> length bs" using offs by linarith
  have "length bs + data_size ds \<le> 2 ^ 62" using size fits by (simp add: container_fits_def)
  from append_data_spec [OF h nm ds base this] obtain buf2 ps ext where
    dat: "append_data fs buf ?rs = Some (Inr (buf2, ps))" "holds buf2 (bs @ ext)"
      "length ext \<le> data_size ds" "length ps = ?n"
      "\<forall>i < ?n. place_at ?base (bs @ ext) (ps ! i) (ds ! i)" by auto
  have base2: "?base \<le> length (bs @ ext)" using base by simp
  let ?mo = "if has_metadata ?rs then ms else 0"
  let ?es = "directory_entries ?rs nos mos (map name_hash ns) ps"
  define tsize :: u64 where "tsize = of_nat (length (bs @ ext))"
  let ?h0 = "container_header (of_nat ?n) (has_metadata ?rs) (\<not> distinct ns) 160 so ?mo ho (bb_len buf) tsize"
  obtain c crc where fin: "container_finish ?rs buf2 nos mos (map name_hash ns) ps
      (has_metadata ?rs) 160 so ?mo ho (bb_len buf) = Some c"
    "length (ec_data c) = length (bs @ ext)" "unat (ec_size c) = length (bs @ ext)"
    "agree_from ?base (bs @ ext) (ec_data c)"
    "mem_read (ec_data c) 160 (128 * ?n) = Some (concat (map put_entry ?es))"
    "mem_read (ec_data c) 0 160 = Some (put_header (?h0\<lparr>h_checksum := crc\<rparr>))"
    "crc = elfr_crc64 (put_header ?h0 @ drop 160 (ec_data c))"
    unfolding tsize_def by (rule container_finish_spec [OF dat(2) nm base2 lens dat(4)])
  let ?img = "ec_data c" and ?h = "?h0\<lparr>h_checksum := crc\<rparr>"
  have run: "elfrc_container_build fs m = Some (Inr c)" by (simp add: eq dat(1) fin(1))
  have lbuf: "unat (bb_len buf) = length bs" using h by (simp add: holds_def)
  have "length (bs @ ext) \<le> 2 ^ 63" using dat(2) by (rule holds_bound)
  then have tot: "unat tsize = length ?img" unfolding tsize_def fin(2) by (intro unat_of_nat_u64) simp
  have strs': "mem_read ?img (unat so) (names_size (add_names [] ns)) = Some (strings_bytes (add_names [] ns))"
    using agree_fromD [OF fin(4) offs(1)] mem_read_append [OF strs] by simp
  have hd: "header_describes ?img ?rs ns (length tbl) ?h"
    unfolding fin(7) using offs fin(2) lbuf
    by (intro header_describes_intro [OF fits_count [OF idx] tot] strs') simp_all
  have names': "\<forall>i < ?n. ?base \<le> unat (nos ! i) \<and> reads_cstr (bs @ ext) (unat (nos ! i)) (ns ! i)"
    using names reads_cstr_append by blast
  have meta': "\<forall>i < ?n. metadata_at ?base (bs @ ext) (mos ! i) (r_metadata (?rs ! i))"
    using meta metadata_at_append by blast
  note ed = entries_describe [OF lens named_length [OF nm] dat(4) fin(4) names' meta' dat(5)]
  have ht: "hash_table_at ?img (unat ho) tbl"
    using offs hash_table_at_agree [OF fin(4) _ hash_table_at_append [OF tbl(1)]] by simp
  have hto: "h_hash_table_offset ?h = ho" by (simp add: container_header_def)
  have "container_image ?img ?rs ns ds ?h ?es tbl"
    unfolding container_image_def hto
  proof (intro conjI)
    show "\<forall>i < ?n. entry_describes ?img ?base (?rs ! i) (ns ! i) (ds ! i) (?es ! i)" using ed by blast
    show "\<forall>i < ?n. \<forall>j < ?n. ns ! i = ns ! j \<longrightarrow> d_name_offset (?es ! i) = d_name_offset (?es ! j)"
      using ed same by metis
    show "length ?es = ?n" using ed by blast
  qed (fact fin(5,6) hd ht tbl(2-4))+
  moreover have "length ?img \<le> index_size ?rs ns + data_size ds" using fin(2) size dat(3) by simp
  ultimately show ?thesis using that [OF run] fin(2,3) by simp
qed

section \<open>Properties of the builder\<close>

text \<open>
  C2. The builder is correct: for a manifest whose resources have names and readable files and
  whose tables stay below 4 GiB, \<open>elfrc_container_build\<close> returns a container whose bytes are
  exactly described by \<open>container_image\<close>: a header with the format's constants, flags, section
  offsets, total size and the CRC of the image with a zero checksum field; one directory entry
  per resource with its id, type, language, flags, name hash, the offset of its name in the
  string table (each distinct name stored once, equal names sharing one offset), its metadata
  block, and the 16-byte aligned place, size and CRC of its file's bytes; and a probe table that
  finds every name.
\<close>

theorem elfrc_container_build_correct:
  assumes "named (mf_resources m) ns"
    and "map (file_bytes fs) (mf_resources m) = map Some ds"
    and "container_fits (mf_resources m) ns ds"
  shows "\<exists>c h es tbl. elfrc_container_build fs m = Some (Inr c)
    \<and> container_image (ec_data c) (mf_resources m) ns ds h es tbl
    \<and> unat (ec_size c) = length (ec_data c)
    \<and> length (ec_data c) \<le> index_size (mf_resources m) ns + data_size ds"
  using build_image [OF assms] by metis

definition sample_resource :: "string \<Rightarrow> string \<Rightarrow> u32 \<Rightarrow> elfrc_metadata_kv list \<Rightarrow> elfrc_resource" where
  "sample_resource name file i kvs =
     \<lparr>r_name = Some name, r_file = Some file, r_type = 5, r_language = 0, r_compression = 0,
      r_flags = 4, r_id_explicit = False, r_id = 0, r_final_id = i, r_metadata = kvs, r_line = 1\<rparr>"

definition sample_manifest :: elfrc_manifest where
  "sample_manifest =
     \<lparr>mf_version = 1, mf_module = None,
      mf_resources = [sample_resource ''logo'' ''a.png'' 1 [\<lparr>m_key = ''k'', m_value = ''v''\<rparr>],
        sample_resource ''logo'' ''b.png'' 2 [], sample_resource ''cfg'' ''a.png'' 3 []]\<rparr>"

definition sample_files :: file_system where
  "sample_files path =
     (if path = ''a.png'' then Some \<lparr>of_size = 3, of_bytes = [1, 2, 3]\<rparr>
      else if path = ''b.png'' then Some \<lparr>of_size = 0, of_bytes = []\<rparr> else None)"

lemma sample_named: "named (mf_resources sample_manifest) [''logo'', ''logo'', ''cfg'']"
  by (simp add: sample_manifest_def sample_resource_def)

lemma sample_readable:
  "map (file_bytes sample_files) (mf_resources sample_manifest) = map Some [[1, 2, 3], [], [1, 2, 3]]"
  by (simp add: sample_manifest_def sample_resource_def file_bytes_def sample_files_def)

lemma sample_fits: "container_fits (mf_resources sample_manifest) [''logo'', ''logo'', ''cfg''] [[1, 2, 3], [], [1, 2, 3]]"
  by (simp add: container_fits_def index_size_def table_size_def sample_manifest_def sample_resource_def)

theorem elfrc_container_build_correct_witness:
  "\<exists>c h es tbl. elfrc_container_build sample_files sample_manifest = Some (Inr c)
    \<and> container_image (ec_data c) (mf_resources sample_manifest) [''logo'', ''logo'', ''cfg'']
        [[1, 2, 3], [], [1, 2, 3]] h es tbl
    \<and> unat (ec_size c) = length (ec_data c)
    \<and> length (ec_data c) \<le> index_size (mf_resources sample_manifest) [''logo'', ''logo'', ''cfg'']
        + data_size [[1, 2, 3], [], [1, 2, 3]]"
  by (rule elfrc_container_build_correct [OF sample_named sample_readable sample_fits])



end
