(* ===== verification/Elf_Layout.thy ===== *)
theory Elf_Layout
  imports Elf_Writer Container_Layout
begin

text \<open>
  What the object file of \<open>elfrc_write_elf_object\<close> holds: the specification \<open>elf_image\<close> gives
  the place of every section, symbol and name, and the writer's file satisfies it.
\<close>

section \<open>String tables\<close>

lemma append_string_holds:
  assumes h: "holds buf bs" and size: "length bs + Suc (length s) \<le> 2 ^ 63"
  obtains buf' off where "append_string buf s = Some (buf', off)" "holds buf' (bs @ cstr s)"
    "unat off = length bs"
proof -
  have n: "unat (of_nat (length s) + 1 :: u64) = length (cstr s)"
    using size unat_of_nat_u64 [of "Suc (length s)"] by (simp add: add.commute)
  have room: "length bs + length (cstr s) \<le> 2 ^ 63" using size by simp
  obtain buf' where "byte_buf_append buf (cstr s) (of_nat (length s) + 1) = Some (buf', of_nat (length bs))"
    "holds buf' (bs @ cstr s)" by (rule buf.append_whole [OF h n room])
  moreover have "unat (of_nat (length bs) :: u64) = length bs"
    using size by (intro unat_of_nat_u64) simp
  ultimately show thesis using that by (simp add: append_string_def)
qed

lemma append_strings_spec:
  assumes "holds buf bs" and "length bs + names_size ss \<le> 2 ^ 63"
  shows "\<exists>buf' offs. append_strings buf ss = Some (buf', offs) \<and> holds buf' (bs @ strings_bytes ss)
    \<and> length offs = length ss
    \<and> (\<forall>i < length ss. reads_cstr (bs @ strings_bytes ss) (unat (offs ! i)) (ss ! i))"
  using assms
proof (induction ss arbitrary: buf bs)
  case Nil
  then show ?case by simp
next
  case (Cons s ss)
  obtain b1 off where 1: "append_string buf s = Some (b1, off)" "holds b1 (bs @ cstr s)" "unat off = length bs"
    by (rule append_string_holds [OF Cons.prems(1), of s]) (use Cons.prems(2) in auto)
  have "length (bs @ cstr s) + names_size ss \<le> 2 ^ 63" using Cons.prems(2) by simp
  from Cons.IH [OF 1(2) this] obtain b2 offs where
    2: "append_strings b1 ss = Some (b2, offs)" "holds b2 ((bs @ cstr s) @ strings_bytes ss)"
      "length offs = length ss"
      "\<forall>i < length ss. reads_cstr ((bs @ cstr s) @ strings_bytes ss) (unat (offs ! i)) (ss ! i)" by auto
  have b: "bs @ strings_bytes (s # ss) = (bs @ cstr s) @ strings_bytes ss" by (simp add: strings_bytes_def)
  have "reads_cstr (bs @ cstr s) (length bs) s" by (simp add: reads_cstr_def mem_read_end)
  from reads_cstr_append [OF this, of "strings_bytes ss"]
  have "\<forall>i < length (s # ss). reads_cstr (bs @ strings_bytes (s # ss)) (unat ((off # offs) ! i)) ((s # ss) ! i)"
    unfolding b using 1(3) 2(4) by (auto simp: nth_Cons split: nat.splits)
  with 1(1) 2(1,2,3) b show ?case by simp
qed

lemma build_strtab_spec:
  assumes "names_size ss < 2 ^ 32"
  obtains buf offs where "build_strtab ss = Some (buf, offs)" "holds buf (0 # strings_bytes ss)"
    "length offs = length ss"
    "\<forall>i < length ss. reads_cstr (0 # strings_bytes ss) (unat (offs ! i)) (ss ! i)"
proof -
  obtain b0 where 0: "byte_buf_append_zeros byte_buf_empty 1 = Some (b0, bb_len byte_buf_empty)"
    "holds b0 ([] @ zeros 1)" using append_zeros_holds [OF holds_empty, of 1] by auto
  have "length ([] @ zeros 1) + names_size ss \<le> 2 ^ 63" using assms by simp
  from append_strings_spec [OF 0(2) this] obtain b1 offs where
    "append_strings b0 ss = Some (b1, offs)" "holds b1 (zeros 1 @ strings_bytes ss)"
    "length offs = length ss"
    "\<forall>i < length ss. reads_cstr (zeros 1 @ strings_bytes ss) (unat (offs ! i)) (ss ! i)" by auto
  then show thesis using that 0(1) by (simp add: build_strtab_def zeros_def)
qed

section \<open>The specification of the object file\<close>

record elf_places =
  ep_shoff :: u64
  ep_resource :: u64
  ep_symtab :: u64
  ep_strtab :: u64
  ep_shstrtab :: u64
  ep_names :: "u64 list"
  ep_symbols :: "u64 list"

definition section_names :: "string list" where
  "section_names = [''.resource'', ''.symtab'', ''.strtab'', ''.shstrtab'']"

definition symbol_list :: "string option \<Rightarrow> string list" where
  "symbol_list symbol_prefix = [fst (symbol_names symbol_prefix), snd (symbol_names symbol_prefix)]"

definition object_shdrs :: "elf_places \<Rightarrow> u64 \<Rightarrow> string option \<Rightarrow> Elf64_Shdr list" where
  "object_shdrs p sz symbol_prefix =
     [null_shdr, resource_shdr (ep_names p ! 0) (ep_resource p) sz,
      symtab_shdr (ep_names p ! 1) (ep_symtab p),
      strtab_shdr (ep_names p ! 2) (ep_strtab p) (of_nat (Suc (names_size (symbol_list symbol_prefix)))),
      strtab_shdr (ep_names p ! 3) (ep_shstrtab p) (of_nat (Suc (names_size section_names)))]"

definition object_syms :: "elf_places \<Rightarrow> u64 \<Rightarrow> Elf64_Sym list" where
  "object_syms p sz = [null_sym, boundary_sym (ep_symbols p ! 0) 0, boundary_sym (ep_symbols p ! 1) sz]"

definition elf_image :: "memory \<Rightarrow> memory \<Rightarrow> string option \<Rightarrow> elf_places \<Rightarrow> bool" where
  "elf_image img data symbol_prefix p \<longleftrightarrow>
     mem_read img 0 64 = Some (put_ehdr (object_ehdr (ep_shoff p)))
     \<and> unat (ep_shoff p) + 320 = length img \<and> unat (ep_shoff p) mod 8 = 0
     \<and> 64 \<le> unat (ep_shoff p) \<and> length img < 2 ^ 64
     \<and> mem_read img (unat (ep_shoff p)) 320
         = Some (concat (map put_shdr (object_shdrs p (of_nat (length data)) symbol_prefix)))
     \<and> mem_read img (unat (ep_resource p)) (length data) = Some data \<and> unat (ep_resource p) mod 16 = 0
     \<and> mem_read img (unat (ep_symtab p)) 72 = Some (concat (map put_sym (object_syms p (of_nat (length data)))))
     \<and> unat (ep_symtab p) mod 8 = 0
     \<and> mem_read img (unat (ep_strtab p)) (Suc (names_size (symbol_list symbol_prefix)))
         = Some (0 # strings_bytes (symbol_list symbol_prefix))
     \<and> mem_read img (unat (ep_shstrtab p)) (Suc (names_size section_names)) = Some (0 # strings_bytes section_names)
     \<and> (\<forall>i < 2. reads_cstr (0 # strings_bytes (symbol_list symbol_prefix)) (unat (ep_symbols p ! i))
          (symbol_list symbol_prefix ! i))
     \<and> (\<forall>i < 4. reads_cstr (0 # strings_bytes section_names) (unat (ep_names p ! i)) (section_names ! i))"

lemma append_at:
  assumes h: "holds b bs" and len: "unat len = length src" and room: "length bs + length src \<le> 2 ^ 63"
  obtains b' off where "byte_buf_append b src len = Some (b', off)" "holds b' (bs @ src)"
    "unat off = length bs"
proof -
  obtain b' where "byte_buf_append b src len = Some (b', of_nat (length bs))" "holds b' (bs @ src)"
    by (rule buf.append_whole [OF h len room])
  moreover have "unat (of_nat (length bs) :: u64) = length bs" using room by (intro unat_of_nat_u64) simp
  ultimately show thesis using that by blast
qed

lemma symbol_names_short: "names_size (symbol_list symbol_prefix) \<le> 512"
  by (auto simp: symbol_list_def symbol_names_def snprintf256_def split: option.splits)

lemma length_syms: "length (concat (map put_sym [a, b, c])) = 72"
  using sym_codec.enc_array_length [of "[a, b, c]"] by (simp add: sym_codec.enc_array_def sizeof_elf)

lemma length_shdrs: "length (concat (map put_shdr [a, b, c, d, e])) = 320"
  using shdr_codec.enc_array_length [of "[a, b, c, d, e]"] by (simp add: shdr_codec.enc_array_def sizeof_elf)

lemma length_ehdr: "length (put_ehdr (object_ehdr shoff)) = 64"
  using ehdr_codec.enc_length [of "object_ehdr shoff"]
  by (simp add: ehdr_ok_def object_ehdr_def sizeof_elf ELFMAG_def)

section \<open>The writer\<close>

lemma object_front:
  assumes sz: "unat sz = length data" and small: "length data \<le> 2 ^ 61" and syms: "length syms = 72"
  obtains f0 o0 f1 f2 roff f3 f4 soff f5 bs where
    "byte_buf_append_zeros byte_buf_empty (of_nat sizeof_Elf64_Ehdr) = Some (f0, o0)"
    "byte_buf_align f0 16 = Some f1" "byte_buf_append f1 data sz = Some (f2, roff)"
    "byte_buf_align f2 8 = Some f3"
    "byte_buf_append f3 syms (of_nat (3 * sizeof_Elf64_Sym)) = Some (f4, soff)"
    "byte_buf_align f4 1 = Some f5" "holds f5 bs" "64 \<le> unat roff" "unat roff mod 16 = 0"
    "mem_read bs (unat roff) (length data) = Some data" "64 \<le> unat soff" "unat soff mod 8 = 0"
    "mem_read bs (unat soff) 72 = Some syms" "length bs \<le> length data + 300" "64 \<le> length bs"
proof -
  obtain f0 where 0: "byte_buf_append_zeros byte_buf_empty (of_nat sizeof_Elf64_Ehdr)
      = Some (f0, bb_len byte_buf_empty)" "holds f0 ([] @ zeros 64)"
    using append_zeros_holds [OF holds_empty, of "of_nat sizeof_Elf64_Ehdr"] by (auto simp: sizeof_elf)
  obtain f1 k1 where 1: "byte_buf_align f0 16 = Some f1" "holds f1 (([] @ zeros 64) @ zeros k1)"
    "k1 < unat (16 :: u64)" "unat (bb_len f1) mod unat (16 :: u64) = 0"
    "unat (bb_len f1) = length ([] @ zeros 64) + k1"
    by (rule align_stage [OF 0(2), of 16]) simp_all
  let ?b1 = "([] @ zeros 64) @ zeros k1"
  obtain f2 roff where 2: "byte_buf_append f1 data sz = Some (f2, roff)" "holds f2 (?b1 @ data)"
    "unat roff = length ?b1"
    by (rule append_at [OF 1(2) sz]) (use small 1(3) in auto)
  obtain f3 k2 where 3: "byte_buf_align f2 8 = Some f3" "holds f3 ((?b1 @ data) @ zeros k2)"
    "k2 < unat (8 :: u64)" "unat (bb_len f3) mod unat (8 :: u64) = 0"
    "unat (bb_len f3) = length (?b1 @ data) + k2"
    by (rule align_stage [OF 2(2), of 8]) (use small 1(3) in auto)
  let ?b3 = "(?b1 @ data) @ zeros k2"
  have "unat (of_nat (3 * sizeof_Elf64_Sym) :: u64) = length syms" using syms by (simp add: sizeof_elf)
  then obtain f4 soff where 4: "byte_buf_append f3 syms (of_nat (3 * sizeof_Elf64_Sym)) = Some (f4, soff)"
    "holds f4 (?b3 @ syms)" "unat soff = length ?b3"
    by (rule append_at [OF 3(2)]) (use small 1(3) 3(3) syms in auto)
  obtain f5 k3 where 5: "byte_buf_align f4 1 = Some f5" "holds f5 ((?b3 @ syms) @ zeros k3)"
    "k3 < unat (1 :: u64)" "unat (bb_len f5) mod unat (1 :: u64) = 0"
    "unat (bb_len f5) = length (?b3 @ syms) + k3"
    by (rule align_stage [OF 4(2), of 1]) (use small 1(3) 3(3) syms in auto)
  have h5: "holds f5 (?b3 @ syms)" using 5(2,3) by (simp add: zeros_def)
  have "mem_read (?b1 @ data) (length ?b1) (length data) = Some data" by (rule mem_read_end) simp
  then have rd: "mem_read (?b3 @ syms) (length ?b1) (length data) = Some data"
    by (rule mem_read_append [OF mem_read_append])
  have rs: "mem_read (?b3 @ syms) (length ?b3) 72 = Some syms" using syms by (intro mem_read_end) simp
  have soff: "unat soff mod 8 = 0" using 3(4,5) 4(3) by (simp add: add.assoc)
  show thesis
    by (rule that [OF 0(1) 1(1) 2(1) 3(1) 4(1) 5(1) h5 _ _ _ _ soff])
      (use 1(3,4,5) 2(3) 3(3) 4(3) rd rs syms in simp_all)
qed

lemma object_back:
  assumes h: "holds f5 bs" and small: "length bs \<le> 2 ^ 62"
    and t1: "holds strtab xs" "length xs < 1000" and t2: "holds shstrtab ys" "length ys < 1000"
  obtains f6 stroff f7 shstroff f8 bs' where
    "byte_buf_append f5 xs (bb_len strtab) = Some (f6, stroff)"
    "byte_buf_append f6 ys (bb_len shstrtab) = Some (f7, shstroff)"
    "byte_buf_align f7 8 = Some f8" "holds f8 (bs @ bs')" "length (bs @ bs') \<le> length bs + 2010"
    "unat stroff = length bs" "mem_read (bs @ bs') (unat stroff) (length xs) = Some xs"
    "length bs \<le> unat shstroff" "mem_read (bs @ bs') (unat shstroff) (length ys) = Some ys"
    "unat (bb_len f8) = length (bs @ bs')" "unat (bb_len f8) mod 8 = 0"
proof -
  have lx: "unat (bb_len strtab) = length xs" and ly: "unat (bb_len shstrtab) = length ys"
    using t1(1) t2(1) by (simp_all add: holds_def)
  obtain f6 stroff where 6: "byte_buf_append f5 xs (bb_len strtab) = Some (f6, stroff)"
    "holds f6 (bs @ xs)" "unat stroff = length bs"
    by (rule append_at [OF h lx]) (use small t1(2) in auto)
  obtain f7 shstroff where 7: "byte_buf_append f6 ys (bb_len shstrtab) = Some (f7, shstroff)"
    "holds f7 ((bs @ xs) @ ys)" "unat shstroff = length (bs @ xs)"
    by (rule append_at [OF 6(2) ly]) (use small t1(2) t2(2) in auto)
  obtain f8 k where 8: "byte_buf_align f7 8 = Some f8" "holds f8 (((bs @ xs) @ ys) @ zeros k)"
    "k < unat (8 :: u64)" "unat (bb_len f8) mod unat (8 :: u64) = 0"
    "unat (bb_len f8) = length ((bs @ xs) @ ys) + k"
    by (rule align_stage [OF 7(2), of 8]) (use small t1(2) t2(2) in auto)
  let ?bs' = "xs @ ys @ zeros k"
  have h8: "holds f8 (bs @ ?bs')" using 8(2) by simp
  have rx: "mem_read (bs @ ?bs') (length bs) (length xs) = Some xs" by (rule mem_read_mid) simp_all
  have ry: "mem_read (bs @ ?bs') (length (bs @ xs)) (length ys) = Some ys"
    using mem_read_mid [of "length (bs @ xs)" "bs @ xs" "length ys" ys "zeros k"] by simp
  show thesis
    by (rule that [OF 6(1) 7(1) 8(1) h8])
      (use 6(3) 7(3) 8(3,4,5) rx ry t1(2) t2(2) in simp_all)
qed

lemma poke_ehdr:
  assumes h: "holds f bs" and room: "64 \<le> length bs"
  obtains f' img where "byte_buf_poke f 0 (put_ehdr (object_ehdr shoff)) = Some f'" "holds f' img"
    "length img = length bs" "agree_from 64 bs img"
    "mem_read img 0 64 = Some (put_ehdr (object_ehdr shoff))"
proof -
  let ?e = "put_ehdr (object_ehdr shoff)"
  have w: "mem_write bs (unat (0 :: u64)) ?e = Some (?e @ drop 64 bs)"
    using write_at_0 [of ?e bs] length_ehdr room by simp
  from poke_holds [OF h w] obtain f' where f': "byte_buf_poke f 0 ?e = Some f'" "holds f' (?e @ drop 64 bs)"
    by auto
  have "agree_from 64 bs (?e @ drop 64 bs)"
    using agree_from_write [OF w] length_ehdr by simp
  moreover have "mem_read (?e @ drop 64 bs) 0 64 = Some ?e" using length_ehdr by (simp add: mem_read_def)
  ultimately show thesis using that [OF f'] length_ehdr room by simp
qed

lemma elf_object_image:
  assumes sz: "unat (ec_size c) = length (ec_data c)" and small: "length (ec_data c) \<le> 2 ^ 61"
  obtains img p where "elf_object c symbol_prefix = Some img" "elf_image img (ec_data c) symbol_prefix p"
proof -
  let ?data = "ec_data c" and ?sz = "ec_size c"
  let ?ss = "symbol_list symbol_prefix"
  have "(of_nat (length ?data) :: u64) = of_nat (unat ?sz)" using sz by simp
  then have szo: "of_nat (length ?data) = ?sz" by simp
  obtain shstrtab shoffs where s1: "build_strtab section_names = Some (shstrtab, shoffs)"
    "holds shstrtab (0 # strings_bytes section_names)" "length shoffs = length section_names"
    "\<forall>i < length section_names. reads_cstr (0 # strings_bytes section_names) (unat (shoffs ! i)) (section_names ! i)"
    by (rule build_strtab_spec [of section_names]) (simp add: section_names_def)
  obtain strtab offs where s2: "build_strtab ?ss = Some (strtab, offs)"
    "holds strtab (0 # strings_bytes ?ss)" "length offs = length ?ss"
    "\<forall>i < length ?ss. reads_cstr (0 # strings_bytes ?ss) (unat (offs ! i)) (?ss ! i)"
    by (rule build_strtab_spec [of ?ss]) (use symbol_names_short [of symbol_prefix] in simp)
  let ?syms = "concat (map put_sym [null_sym, boundary_sym (offs ! 0) 0, boundary_sym (offs ! 1) ?sz])"
  from sz small length_syms obtain f0 o0 f1 f2 roff f3 f4 soff f5 bs where
    a: "byte_buf_append_zeros byte_buf_empty (of_nat sizeof_Elf64_Ehdr) = Some (f0, o0)"
    "byte_buf_align f0 16 = Some f1" "byte_buf_append f1 ?data ?sz = Some (f2, roff)"
    "byte_buf_align f2 8 = Some f3"
    "byte_buf_append f3 ?syms (of_nat (3 * sizeof_Elf64_Sym)) = Some (f4, soff)"
    "byte_buf_align f4 1 = Some f5" "holds f5 bs" "64 \<le> unat roff" "unat roff mod 16 = 0"
    "mem_read bs (unat roff) (length ?data) = Some ?data" "64 \<le> unat soff" "unat soff mod 8 = 0"
    "mem_read bs (unat soff) 72 = Some ?syms" "length bs \<le> length ?data + 300" "64 \<le> length bs"
    by (rule object_front)
  have lens: "length (0 # strings_bytes ?ss) < 1000" "length (0 # strings_bytes section_names) < 1000"
    using symbol_names_short [of symbol_prefix]
    by (simp_all add: length_strings_bytes section_names_def)
  have "length bs \<le> 2 ^ 62" using a(14) small by simp
  from a(7) this s2(2) lens(1) s1(2) lens(2) obtain f6 stroff f7 shstroff f8 bs' where
    b: "byte_buf_append f5 (0 # strings_bytes ?ss) (bb_len strtab) = Some (f6, stroff)"
    "byte_buf_append f6 (0 # strings_bytes section_names) (bb_len shstrtab) = Some (f7, shstroff)"
    "byte_buf_align f7 8 = Some f8" "holds f8 (bs @ bs')" "length (bs @ bs') \<le> length bs + 2010"
    "unat stroff = length bs" "mem_read (bs @ bs') (unat stroff) (length (0 # strings_bytes ?ss)) = Some (0 # strings_bytes ?ss)"
    "length bs \<le> unat shstroff"
    "mem_read (bs @ bs') (unat shstroff) (length (0 # strings_bytes section_names)) = Some (0 # strings_bytes section_names)"
    "unat (bb_len f8) = length (bs @ bs')" "unat (bb_len f8) mod 8 = 0"
    by (rule object_back)
  define p where "p = \<lparr>ep_shoff = bb_len f8, ep_resource = roff, ep_symtab = soff, ep_strtab = stroff,
    ep_shstrtab = shstroff, ep_names = shoffs, ep_symbols = offs\<rparr>"
  let ?shdrs = "concat (map put_shdr (object_shdrs p ?sz symbol_prefix))"
  have lsh: "length ?shdrs = 320" unfolding object_shdrs_def by (rule length_shdrs)
  have "unat (of_nat (SEC_COUNT * sizeof_Elf64_Shdr) :: u64) = length ?shdrs"
    using lsh by (simp add: sec_defs sizeof_elf)
  then obtain f9 o9 where f9: "byte_buf_append f8 ?shdrs (of_nat (SEC_COUNT * sizeof_Elf64_Shdr)) = Some (f9, o9)"
    "holds f9 ((bs @ bs') @ ?shdrs)" "unat o9 = length (bs @ bs')"
    by (rule append_at [OF b(4)]) (use b(5) a(14) small lsh in auto)
  have "64 \<le> length ((bs @ bs') @ ?shdrs)" using a(15) by simp
  from f9(2) this obtain f10 img where c: "byte_buf_poke f9 0 (put_ehdr (object_ehdr (bb_len f8))) = Some f10"
    "holds f10 img" "length img = length ((bs @ bs') @ ?shdrs)" "agree_from 64 ((bs @ bs') @ ?shdrs) img"
    "mem_read img 0 64 = Some (put_ehdr (object_ehdr (bb_len f8)))" by (rule poke_ehdr)
  have bbl: "bb_len strtab = of_nat (Suc (names_size ?ss))"
    "bb_len shstrtab = of_nat (Suc (names_size section_names))"
    using holds_len [OF s2(2)] holds_len [OF s1(2)] by (simp_all add: length_strings_bytes)
  note f9' = f9(1) [unfolded object_shdrs_def bbl [symmetric], unfolded p_def elf_places.select_convs]
  have run: "elf_object c symbol_prefix = Some img"
    unfolding elf_object_def
    using s1(1) [unfolded section_names_def] s2(1) [unfolded symbol_list_def] holds_bytes [OF s2(2)]
      holds_bytes [OF s1(2)] a(1-6) b(1-3) f9' c(1) holds_bytes [OF c(2)]
    by (simp add: Let_def case_prod_beta)
  note to_img = agree_fromD [OF c(4)]
  have keep: "mem_read img a n = Some x" if "64 \<le> a" "mem_read (bs @ bs') a n = Some x" for a n x
    using to_img [OF that(1)] mem_read_append [OF that(2)] by simp
  have img: "elf_image img ?data symbol_prefix p"
    unfolding elf_image_def szo
  proof (intro conjI)
    show "mem_read img 0 64 = Some (put_ehdr (object_ehdr (ep_shoff p)))" using c(5) by (simp add: p_def)
    show "unat (ep_shoff p) + 320 = length img" "unat (ep_shoff p) mod 8 = 0"
      using c(3) b(10,11) lsh by (simp_all add: p_def)
    show "64 \<le> unat (ep_shoff p)" using b(10) a(15) by (simp add: p_def)
    have "length img \<le> length ?data + 3000" using c(3) b(5) a(14) lsh by simp
    also have "\<dots> < 2 ^ 64" using small by simp
    finally show "length img < 2 ^ 64" .
    have "mem_read ((bs @ bs') @ ?shdrs) (length (bs @ bs')) 320 = Some ?shdrs"
      by (rule mem_read_end) (simp only: lsh)
    then have "mem_read img (length (bs @ bs')) 320 = Some ?shdrs" using to_img a(15) by simp
    then show "mem_read img (unat (ep_shoff p)) 320 = Some ?shdrs"
      using b(10) by (simp add: p_def)
    show "mem_read img (unat (ep_resource p)) (length ?data) = Some ?data" "unat (ep_resource p) mod 16 = 0"
      using keep [OF a(8) mem_read_append [OF a(10)]] a(9) by (simp_all add: p_def)
    show "mem_read img (unat (ep_symtab p)) 72 = Some (concat (map put_sym (object_syms p ?sz)))"
      "unat (ep_symtab p) mod 8 = 0"
      using keep [OF a(11) mem_read_append [OF a(13)]] a(12) by (simp_all add: p_def object_syms_def)
    show "mem_read img (unat (ep_strtab p)) (Suc (names_size ?ss)) = Some (0 # strings_bytes ?ss)"
      using keep [OF _ b(7)] b(6) a(15) by (simp add: p_def length_strings_bytes)
    show "mem_read img (unat (ep_shstrtab p)) (Suc (names_size section_names)) = Some (0 # strings_bytes section_names)"
      using keep [OF _ b(9)] b(8) a(15) by (simp add: p_def length_strings_bytes)
    show "\<forall>i < 2. reads_cstr (0 # strings_bytes ?ss) (unat (ep_symbols p ! i)) (?ss ! i)"
      using s2(4) by (simp add: p_def symbol_list_def numeral_2_eq_2)
    show "\<forall>i < 4. reads_cstr (0 # strings_bytes section_names) (unat (ep_names p ! i)) (section_names ! i)"
      using s1(4) by (simp add: p_def section_names_def)
  qed
  show thesis using that run img by blast
qed

section \<open>Properties of the writer\<close>



lemma take_within: "n \<le> length a \<Longrightarrow> take n (a @ x) = take n a"
  by simp

text \<open>
  C35. The two boundary symbols have different names exactly when the prefix has fewer than 239
  characters: from there on the 256-byte buffers cut both names to the same 255 characters.
\<close>

theorem symbol_names_distinct_iff:
  "fst (symbol_names symbol_prefix) \<noteq> snd (symbol_names symbol_prefix)
    \<longleftrightarrow> (case symbol_prefix of None \<Rightarrow> True | Some p \<Rightarrow> length p < 239)"
proof (cases "symbol_prefix = None \<or> symbol_prefix = Some []")
  case True
  then show ?thesis by (auto simp: symbol_names_def)
next
  case False
  then obtain p where p: "symbol_prefix = Some p" "p \<noteq> []" by auto
  let ?pre = "''_elfr_'' @ p @ ''_resource_''"
  have names: "symbol_names symbol_prefix = (take 255 (?pre @ ''start''), take 255 (?pre @ ''end''))"
    using p by (simp add: symbol_names_def snprintf256_def)
  have len: "length ?pre = 16 + length p" by simp
  show ?thesis
  proof (cases "length p < 239")
    case True
    then obtain k where k: "255 - length ?pre = Suc k" using len by (cases "255 - length ?pre") auto
    have "take 255 ?pre = ?pre" using True len by simp
    then have "take 255 (?pre @ x) = ?pre @ take (Suc k) x" for x :: string
      unfolding take_append k by (simp only:)
    then have "fst (symbol_names symbol_prefix) = ?pre @ take (Suc k) ''start''"
      "snd (symbol_names symbol_prefix) = ?pre @ take (Suc k) ''end''"
      by (simp_all only: names fst_conv snd_conv)
    then show ?thesis using True p(1) by simp
  next
    case False
    then have "255 \<le> length ?pre" using len by simp
    then have "take 255 (?pre @ x) = take 255 ?pre" for x :: string by (rule take_within)
    then have "fst (symbol_names symbol_prefix) = snd (symbol_names symbol_prefix)"
      by (simp only: names fst_conv snd_conv)
    then show ?thesis using False p(1) by simp
  qed
qed

end
