(* ===== verification/Erf_Open.thy ===== *)
theory Erf_Open
  imports Erf_Reader
begin

text \<open>
  What \<open>erf_open_memory\<close> accepts: the validity of a container stated over natural numbers,
  the proof that the 64-bit checks of the code decide exactly that without reading outside the
  memory they are given, and what every opened container guarantees.
\<close>

section \<open>Bounds without wrap-around\<close>

lemma in_bounds_iff: "in_bounds sz off len \<longleftrightarrow> unat off + unat len \<le> unat sz"
proof (cases "sz < off")
  case True
  then show ?thesis by (simp add: in_bounds_def word_less_nat_alt)
next
  case False
  then have "off \<le> sz" by simp
  then have "unat (sz - off) = unat sz - unat off" by (rule unat_sub)
  with False show ?thesis by (auto simp: in_bounds_def word_less_nat_alt not_less)
qed

lemma u32_product: "unat (a :: u32) * unat (b :: u32) < 2 ^ 64"
proof -
  have "unat a * unat b \<le> (2 ^ 32 - 1) * (2 ^ 32 - 1)"
    using unat_u32_bound [of a] unat_u32_bound [of b] by (intro mult_le_mono) simp_all
  also have "\<dots> < (2 :: nat) ^ 64" by simp
  finally show ?thesis .
qed

lemma mul_overflow_u32:
  "mul_overflow (ucast (a :: u32)) (ucast (b :: u32)) = Some (ucast a * ucast b)"
  "unat ((ucast a :: u64) * ucast b) = unat a * unat b"
  using u32_product [of a b] by (simp_all add: mul_overflow_def unat_word_ariths)

lemma mul_overflow_16:
  "mul_overflow (ucast (a :: u32)) (of_nat sizeof_ERFHashBucket) = Some (ucast a * 16)"
  "unat ((ucast a :: u64) * 16) = 16 * unat a"
  using unat_u32_bound [of a] by (simp_all add: mul_overflow_def sizeof_defs unat_word_ariths)

section \<open>Valid containers\<close>

definition header_of :: "memory \<Rightarrow> ERFHeader" where
  "header_of m = get_header (take 160 m)"

definition header_valid :: "ERFHeader \<Rightarrow> nat \<Rightarrow> bool" where
  "header_valid h n \<longleftrightarrow>
     h_magic h = ERF_MAGIC \<and> h_version_major h = ERF_VERSION_MAJOR \<and> 160 \<le> unat (h_header_size h)
     \<and> unat (h_header_size h) \<le> unat (h_total_size h) \<and> unat (h_total_size h) \<le> n
     \<and> 128 \<le> unat (h_directory_entry_size h)
     \<and> unat (h_directory_offset h) + unat (h_resource_count h) * unat (h_directory_entry_size h)
         \<le> unat (h_total_size h)
     \<and> (h_resource_count h \<noteq> 0 \<longrightarrow> unat (h_string_offset h) \<le> unat (h_total_size h))"

definition bucket_count_at :: "memory \<Rightarrow> ERFHeader \<Rightarrow> u32" where
  "bucket_count_at m h = t_bucket_count (get_hash_header (take 8 (drop (unat (h_hash_table_offset h)) m)))"

definition hash_valid :: "memory \<Rightarrow> ERFHeader \<Rightarrow> bool" where
  "hash_valid m h \<longleftrightarrow> (header_has_hash h \<longrightarrow>
     unat (h_hash_table_offset h) + 8 + 16 * unat (bucket_count_at m h) \<le> unat (h_total_size h))"

definition entry_at :: "memory \<Rightarrow> ERFHeader \<Rightarrow> nat \<Rightarrow> ERFDirectoryEntry" where
  "entry_at m h i =
     get_entry (take 128 (drop (unat (h_directory_offset h) + i * unat (h_directory_entry_size h)) m))"

definition entry_fits :: "ERFHeader \<Rightarrow> ERFDirectoryEntry \<Rightarrow> bool" where
  "entry_fits h d \<longleftrightarrow> unat (d_name_offset d) < unat (h_total_size h)
     \<and> unat (d_data_offset d) + unat (d_data_size d) \<le> unat (h_total_size h)"

definition erf_valid :: "memory \<Rightarrow> nat \<Rightarrow> bool" where
  "erf_valid m n \<longleftrightarrow>
     160 \<le> n \<and> header_valid (header_of m) n \<and> hash_valid m (header_of m)
     \<and> (\<forall>i < unat (h_resource_count (header_of m)). entry_fits (header_of m) (entry_at m (header_of m) i))"

section \<open>The checks of the code\<close>

lemma header_error_iff: "header_error h sz = None \<longleftrightarrow> header_valid h (unat sz)"
proof -
  have a: "h_total_size h < ucast (h_header_size h) \<longleftrightarrow> \<not> unat (h_header_size h) \<le> unat (h_total_size h)"
    by (simp add: word_less_nat_alt not_le)
  have b: "sz < h_total_size h \<longleftrightarrow> \<not> unat (h_total_size h) \<le> unat sz"
    by (simp add: word_less_nat_alt not_le)
  have c: "0 < h_resource_count h \<longleftrightarrow> h_resource_count h \<noteq> 0" by (auto simp: word_gt_0)
  show ?thesis
    unfolding header_error_def header_valid_def mul_overflow_u32(1) in_bounds_iff a b c
    by (auto simp: sizeof_defs not_less mul_overflow_u32(2) split: if_splits)
qed

lemma header_error_value:
  "header_error h sz = Some e \<Longrightarrow> e =
     (if h_magic h \<noteq> ERF_MAGIC then ERF_ERR_BAD_MAGIC
      else if h_version_major h \<noteq> ERF_VERSION_MAJOR then ERF_ERR_UNSUPPORTED_VERSION
      else ERF_ERR_BAD_OFFSET)"
  by (auto simp: header_error_def mul_overflow_u32(1) split: if_splits)

lemma read_entry_at:
  assumes v: "header_valid h n" and n: "n \<le> length m" and i: "i < unat (h_resource_count h)"
  shows "read_entry m h i = Some (entry_at m h i)"
proof -
  let ?stride = "unat (h_directory_entry_size h)"
  have "i * ?stride + ?stride \<le> unat (h_resource_count h) * ?stride"
    using i by (metis Suc_leI add.commute mult_Suc mult_le_mono1)
  moreover have s: "128 \<le> ?stride"
    and dir: "unat (h_directory_offset h) + unat (h_resource_count h) * ?stride \<le> unat (h_total_size h)"
    and t: "unat (h_total_size h) \<le> n" using v by (simp_all add: header_valid_def)
  ultimately have fits: "unat (h_directory_offset h) + i * ?stride + 128 \<le> length m"
    using n by linarith
  have "i < 2 ^ 32" using i unat_u32_bound [of "h_resource_count h"] by linarith
  then have "unat (of_nat i :: u32) = i" by (rule unat_of_nat_u32)
  then have "unat ((ucast (of_nat i :: u32) :: u64) * ucast (h_directory_entry_size h)) = i * ?stride"
    by (simp only: mul_overflow_u32(2))
  moreover have "unat (ucast (of_nat i :: u32) :: u64) = unat (of_nat i :: u64)"
    using \<open>i < 2 ^ 32\<close> by (simp add: unat_of_nat_u32 unat_of_nat_u64)
  then have "(ucast (of_nat i :: u32) :: u64) = of_nat i" by (rule unsigned_word_eqI)
  ultimately have "unat (of_nat i * ucast (h_directory_entry_size h) :: u64) = i * ?stride" by simp
  with s fits show ?thesis
    by (simp add: read_entry_def entry_at_def mem_read_def sizeof_defs zeros_def)
qed

lemma open_resources_spec:
  assumes v: "header_valid h n" and n: "n \<le> length m" and "i + k \<le> unat (h_resource_count h)"
  shows "open_resources m h i k = Some
    (if \<forall>j. i \<le> j \<and> j < i + k \<longrightarrow> entry_fits h (entry_at m h j)
     then Some (map (\<lambda>j. resource_of_entry (entry_at m h j)) [i..<i + k]) else None)"
  using assms(3)
proof (induction k arbitrary: i)
  case 0
  then show ?case by simp
next
  case (Suc k)
  have r: "read_entry m h i = Some (entry_at m h i)"
    using Suc.prems by (intro read_entry_at [OF v n]) simp
  have fits: "entry_fits h (entry_at m h i)
      \<longleftrightarrow> in_bounds (h_total_size h) (ucast (d_name_offset (entry_at m h i))) 1
        \<and> in_bounds (h_total_size h) (d_data_offset (entry_at m h i)) (d_data_size (entry_at m h i))"
    by (auto simp: entry_fits_def in_bounds_iff)
  have IH: "open_resources m h (Suc i) k = Some
    (if \<forall>j. Suc i \<le> j \<and> j < Suc i + k \<longrightarrow> entry_fits h (entry_at m h j)
     then Some (map (\<lambda>j. resource_of_entry (entry_at m h j)) [Suc i..<Suc i + k]) else None)"
    using Suc.prems by (intro Suc.IH) simp
  have all: "(\<forall>j. i \<le> j \<and> j < i + Suc k \<longrightarrow> entry_fits h (entry_at m h j))
      \<longleftrightarrow> entry_fits h (entry_at m h i)
        \<and> (\<forall>j. Suc i \<le> j \<and> j < Suc i + k \<longrightarrow> entry_fits h (entry_at m h j))"
    by (metis Suc_le_eq add_Suc_right add_Suc_shift le_eq_less_or_eq less_add_Suc1)
  have upt: "[i..<i + Suc k] = i # [Suc i..<Suc i + k]" by (simp add: upt_conv_Cons)
  show ?case
    unfolding all upt using r fits IH by simp
qed

lemma open_hash_table_spec:
  assumes t: "unat (h_total_size h) \<le> length m"
  shows "open_hash_table m h = Some
    (if unat (h_hash_table_offset h) + 8 + 16 * unat (bucket_count_at m h) \<le> unat (h_total_size h)
     then Some (bucket_count_at m h, h_hash_table_offset h + 8) else None)"
proof (cases "unat (h_hash_table_offset h) + 8 \<le> unat (h_total_size h)")
  case False
  then show ?thesis by (simp add: open_hash_table_def in_bounds_iff sizeof_defs)
next
  case True
  then have "unat (h_hash_table_offset h) + unat (8 :: u64) < 2 ^ 64"
    using unat_u64_bound [of "h_total_size h"] by simp
  then have s: "unat (h_hash_table_offset h + 8) = unat (h_hash_table_offset h) + 8"
    by (subst unat_add_u64) simp_all
  have r: "mem_read m (unat (h_hash_table_offset h)) 8
      = Some (take 8 (drop (unat (h_hash_table_offset h)) m))"
    using True t by (simp add: mem_read_def)
  show ?thesis
    unfolding open_hash_table_def mul_overflow_16(1)
    using True r s mul_overflow_16(2) [of "bucket_count_at m h"]
    by (simp add: in_bounds_iff sizeof_defs Let_def bucket_count_at_def)
qed

section \<open>Opening\<close>

definition opened :: "memory \<Rightarrow> u64 \<Rightarrow> ERFContainer" where
  "opened m sz =
     (let h = header_of m; hh = header_has_hash h in
      \<lparr>c_base = m, c_size = sz, c_header = h, c_entry_stride = h_directory_entry_size h,
       c_resources = map (\<lambda>i. resource_of_entry (entry_at m h i)) [0..<unat (h_resource_count h)],
       c_resource_count = h_resource_count h, c_has_hash_table = hh,
       c_hash_bucket_count = (if hh then bucket_count_at m h else 0),
       c_hash_buckets = (if hh then h_hash_table_offset h + 8 else 0)\<rparr>)"

text \<open>The error code a caller sees, in terms of the validity of the bytes.\<close>

definition open_verdict :: "memory \<Rightarrow> nat \<Rightarrow> ERFError" where
  "open_verdict m n =
     (if n = 0 then ERF_ERR_INVALID_ARGUMENT
      else if n < 160 then ERF_ERR_TRUNCATED
      else if h_magic (header_of m) \<noteq> ERF_MAGIC then ERF_ERR_BAD_MAGIC
      else if h_version_major (header_of m) \<noteq> ERF_VERSION_MAJOR then ERF_ERR_UNSUPPORTED_VERSION
      else if erf_valid m n then ERF_OK else ERF_ERR_BAD_OFFSET)"

lemma verdict_ok: "open_verdict m n = ERF_OK \<longleftrightarrow> erf_valid m n"
  by (auto simp: open_verdict_def erf_valid_def header_valid_def)

lemma erf_open_memory_spec:
  assumes n: "unat sz \<le> length m"
  shows "erf_open_memory (Some m) sz e
    = Some (if erf_valid m (unat sz) then Some (opened m sz) else None, open_verdict m (unat sz))"
proof (cases "160 \<le> unat sz")
  case False
  then show ?thesis
    by (auto simp: erf_open_memory_def erf_valid_def sizeof_defs open_verdict_def unat_eq_zero)
next
  case big: True
  let ?h = "header_of m"
  have read: "mem_read m 0 160 = Some (take 160 m)" using big n by (simp add: mem_read_def)
  show ?thesis
  proof (cases "header_error ?h sz")
    case (Some e1)
    then have nv: "\<not> header_valid ?h (unat sz)" using header_error_iff [of ?h sz] by simp
    then have "open_verdict m (unat sz) = e1"
      using big header_error_value [OF Some] by (simp add: open_verdict_def erf_valid_def)
    with nv show ?thesis using big read Some
      by (simp add: erf_open_memory_def erf_valid_def sizeof_defs Let_def flip: header_of_def)
  next
    case None
    then have v: "header_valid ?h (unat sz)" by (simp add: header_error_iff)
    then have t: "unat (h_total_size ?h) \<le> length m" using n by (simp add: header_valid_def)
    note hash = open_hash_table_spec [OF t]
    note rs = open_resources_spec [OF v n, of 0 "unat (h_resource_count ?h)"]
    have all: "(\<forall>j. 0 \<le> j \<and> j < 0 + unat (h_resource_count ?h) \<longrightarrow> entry_fits ?h (entry_at m ?h j))
        \<longleftrightarrow> (\<forall>j < unat (h_resource_count ?h). entry_fits ?h (entry_at m ?h j))" by simp
    have run: "erf_open_memory (Some m) sz e
      = Some (if erf_valid m (unat sz) then (Some (opened m sz), ERF_OK) else (None, ERF_ERR_BAD_OFFSET))"
      using big read None v hash rs unfolding all
      by (simp add: erf_open_memory_def erf_valid_def hash_valid_def sizeof_defs Let_def opened_def
          flip: header_of_def)
    have "open_verdict m (unat sz) = (if erf_valid m (unat sz) then ERF_OK else ERF_ERR_BAD_OFFSET)"
      using big v by (simp add: open_verdict_def header_valid_def)
    with run show ?thesis by simp
  qed
qed



end
