(* ===== verification/Erf_Safety.thy ===== *)
theory Erf_Safety
  imports Erf_Open
begin

text \<open>
  What holds of every opened container, whoever wrote its bytes: the data of each resource
  lies inside the container, the metadata walk never leaves it, the lookups give only resources
  with the name asked for, and they stay inside memory when every name is terminated.
\<close>

section \<open>Opened containers\<close>

lemma opened_simps [simp]:
  "c_base (opened m sz) = m" "c_size (opened m sz) = sz" "c_header (opened m sz) = header_of m"
  "c_resource_count (opened m sz) = h_resource_count (header_of m)"
  "length (c_resources (opened m sz)) = unat (h_resource_count (header_of m))"
  "c_has_hash_table (opened m sz) = header_has_hash (header_of m)"
  by (simp_all add: opened_def Let_def)

lemma opened_resource:
  "i < unat (h_resource_count (header_of m)) \<Longrightarrow>
     c_resources (opened m sz) ! i = resource_of_entry (entry_at m (header_of m) i)"
  by (simp add: opened_def Let_def)

lemma opened_resource_entry:
  assumes "r \<in> set (c_resources (opened m sz))"
  obtains i where "i < unat (h_resource_count (header_of m))"
    "r = resource_of_entry (entry_at m (header_of m) i)"
  using assms by (auto simp: opened_def Let_def)

lemma valid_total: "erf_valid m n \<Longrightarrow> unat (h_total_size (header_of m)) \<le> n"
  by (simp add: erf_valid_def header_valid_def)

lemma opened_resource_bounds:
  assumes v: "erf_valid m n" and r: "r \<in> set (c_resources (opened m sz))"
  shows "unat (res_name r) < n" and "unat (res_data r) + unat (res_size r) \<le> n"
proof -
  from r obtain i where i: "i < unat (h_resource_count (header_of m))"
    "r = resource_of_entry (entry_at m (header_of m) i)" by (rule opened_resource_entry)
  with v have "entry_fits (header_of m) (entry_at m (header_of m) i)" by (simp add: erf_valid_def)
  then show "unat (res_name r) < n" "unat (res_data r) + unat (res_size r) \<le> n"
    using valid_total [OF v] i(2) by (auto simp: entry_fits_def resource_of_entry_def)
qed

section \<open>Names\<close>

lemma lookup_hash_fnv: "lookup_hash name = elfr_fnv1a64 (bytes_of name)"
  by (simp add: lookup_hash_def elfr_fnv1a64_def fnv1a64_update_def [abs_def])

text \<open>\<open>strcmp\<close> against a terminated string stays inside memory.\<close>

lemma strcmp_eq_defined:
  assumes "off \<le> z" and "z < length m" and "m ! z = 0" and "0 \<notin> set xs"
  shows "\<exists>b. strcmp_eq m off xs = Some b"
  using assms
proof (induction xs arbitrary: off)
  case Nil
  then show ?case by simp
next
  case (Cons x xs)
  show ?case
  proof (cases "m ! off = x")
    case True
    with Cons.prems have "off \<noteq> z" by auto
    with Cons.prems True show ?thesis using Cons.IH [of "Suc off"] by simp
  next
    case False
    with Cons.prems show ?thesis by auto
  qed
qed

lemma strcmp_eq_reads:
  "strcmp_eq m off xs = Some True \<longleftrightarrow> mem_read m off (Suc (length xs)) = Some (xs @ [0])"
proof (induction xs arbitrary: off)
  case Nil
  show ?case
  proof (cases "off < length m")
    case True
    then have "drop off m = m ! off # drop (Suc off) m" by (rule Cons_nth_drop_Suc [symmetric])
    with True show ?thesis by (auto simp: mem_read_eq_Some)
  qed (simp add: mem_read_eq_Some)
next
  case (Cons x xs)
  show ?case
  proof (cases "off < length m")
    case False
    then show ?thesis by (simp add: mem_read_eq_Some)
  next
    case True
    have d: "drop off m = m ! off # drop (Suc off) m" using True by (rule Cons_nth_drop_Suc [symmetric])
    show ?thesis
      using True Cons.IH [of "Suc off"] by (auto simp: mem_read_eq_Some d)
  qed
qed

definition has_name :: "ERFContainer \<Rightarrow> string \<Rightarrow> ERFResource \<Rightarrow> bool" where
  "has_name c name r \<longleftrightarrow> name_matches c r name = Some True"

lemma find_linear_sound:
  "find_linear c name rs = Some (Some r) \<Longrightarrow> r \<in> set rs \<and> has_name c name r"
  by (induction rs) (auto simp: has_name_def bind_eq_Some_conv split: if_splits)

lemma find_probe_sound:
  assumes "find_probe k c name h slot = Some (Some r)"
  shows "has_name c name r
    \<and> (\<exists>i < unat (c_resource_count c). r = c_resources c ! i)"
  using assms
proof (induction k arbitrary: slot)
  case 0
  then show ?case by simp
next
  case (Suc k)
  then show ?case
    by (auto simp: has_name_def bind_eq_Some_conv Let_def word_less_nat_alt split: if_splits)
qed

text \<open>\<open>names_end\<close>: behind every name pointer there is a NUL inside the memory.\<close>

definition names_end :: "ERFContainer \<Rightarrow> bool" where
  "names_end c \<longleftrightarrow> (\<forall>r\<in>set (c_resources c). \<exists>z. unat (res_name r) \<le> z \<and> z < length (c_base c) \<and> c_base c ! z = 0)"

lemma name_matches_defined:
  assumes "names_end c" and "r \<in> set (c_resources c)" and "no_nul name"
  shows "\<exists>b. name_matches c r name = Some b"
proof -
  from assms(1,2) obtain z where z: "unat (res_name r) \<le> z" "z < length (c_base c)" "c_base c ! z = 0"
    by (auto simp: names_end_def)
  then show ?thesis unfolding name_matches_def
    using no_nul_bytes [OF assms(3)] by (rule strcmp_eq_defined)
qed

lemma find_linear_defined:
  assumes e: "names_end c" and n: "no_nul name" and "set rs \<subseteq> set (c_resources c)"
  shows "\<exists>r. find_linear c name rs = Some r \<and> (r = None \<longleftrightarrow> (\<forall>x\<in>set rs. \<not> has_name c name x))"
  using assms(3)
proof (induction rs)
  case Nil
  then show ?case by simp
next
  case (Cons x rs)
  then obtain b where "name_matches c x name = Some b"
    using name_matches_defined [OF e _ n, of x] by auto
  with Cons show ?case by (cases b) (auto simp: has_name_def)
qed

lemma find_probe_defined:
  assumes e: "names_end c" and n: "no_nul name"
    and tbl: "unat (c_hash_buckets c) + 16 * unat (c_hash_bucket_count c) \<le> length (c_base c)"
    and count: "length (c_resources c) = unat (c_resource_count c)"
    and slot: "unat slot < unat (c_hash_bucket_count c)"
  shows "\<exists>r. find_probe k c name h slot = Some r"
  using slot
proof (induction k arbitrary: slot)
  case 0
  then show ?case by simp
next
  case (Suc k)
  have "unat (c_hash_buckets c) + 16 * unat slot + 16 \<le> length (c_base c)"
    using Suc.prems tbl by linarith
  then obtain bytes where read: "mem_read (c_base c) (unat (c_hash_buckets c) + sizeof_ERFHashBucket * unat slot)
      sizeof_ERFHashBucket = Some bytes" by (auto simp: mem_read_def sizeof_defs)
  let ?b = "get_bucket bytes"
  have "0 < unat (c_hash_bucket_count c)" using Suc.prems by linarith
  then have "unat ((slot + 1) mod c_hash_bucket_count c) < unat (c_hash_bucket_count c)"
    by (simp add: unat_mod_distrib)
  from Suc.IH [OF this] obtain rest where
    rest: "find_probe k c name h ((slot + 1) mod c_hash_bucket_count c) = Some rest" by auto
  show ?case
  proof (cases "b_directory_index ?b < c_resource_count c")
    case True
    then have "c_resources c ! unat (b_directory_index ?b) \<in> set (c_resources c)"
      using count by (simp add: word_less_nat_alt)
    from name_matches_defined [OF e this n] read rest show ?thesis by (auto simp: Let_def)
  next
    case False
    then show ?thesis using read rest by (auto simp: Let_def)
  qed
qed

lemma hash_span:
  assumes v: "erf_valid m n"
  shows "unat (c_hash_buckets (opened m sz)) + 16 * unat (c_hash_bucket_count (opened m sz)) \<le> n"
proof (cases "header_has_hash (header_of m)")
  case True
  let ?h = "header_of m"
  from v True have le: "unat (h_hash_table_offset ?h) + 8 + 16 * unat (bucket_count_at m ?h)
      \<le> unat (h_total_size ?h)" by (simp add: erf_valid_def hash_valid_def)
  then have "unat (h_hash_table_offset ?h) + unat (8 :: u64) < 2 ^ 64"
    using unat_u64_bound [of "h_total_size ?h"] by simp
  then have "unat (h_hash_table_offset ?h + 8) = unat (h_hash_table_offset ?h) + 8"
    by (subst unat_add_u64) simp_all
  then show ?thesis using True le valid_total [OF v] by (simp add: opened_def Let_def)
next
  case False
  then show ?thesis by (simp add: opened_def Let_def)
qed

lemma has_name_reads:
  "has_name c name r \<longleftrightarrow> mem_read (c_base c) (unat (res_name r)) (Suc (length name)) = Some (cstr name)"
  using strcmp_eq_reads [of "c_base c" "unat (res_name r)" "bytes_of name"]
  by (simp add: has_name_def name_matches_def cstr_def)

lemma find_in_returns:
  assumes "unat sz \<le> length m" and "erf_valid m (unat sz)" and "names_end (opened m sz)"
    and "no_nul name"
  obtains r where "erf_find_in (Some (opened m sz)) (Some name) e = Some (found r)"
    "\<forall>x. r = Some x \<longrightarrow> x \<in> set (c_resources (opened m sz)) \<and> has_name (opened m sz) name x"
    "\<not> header_has_hash (header_of m) \<longrightarrow>
        (r = None \<longleftrightarrow> (\<forall>x\<in>set (c_resources (opened m sz)). \<not> has_name (opened m sz) name x))"
proof (cases "c_has_hash_table (opened m sz) \<and> 0 < c_hash_bucket_count (opened m sz)")
  case True
  let ?c = "opened m sz"
  let ?s = "ucast (lookup_hash name mod ucast (c_hash_bucket_count ?c)) :: u32"
  have pos: "0 < unat (c_hash_bucket_count ?c)" using True by (simp add: word_less_nat_alt)
  have "unat (lookup_hash name mod ucast (c_hash_bucket_count ?c)) < unat (c_hash_bucket_count ?c)"
    using pos by (simp add: unat_mod_distrib)
  then have "unat ?s < unat (c_hash_bucket_count ?c)"
    using unat_u32_bound [of "c_hash_bucket_count ?c"] by (subst unat_ucast_u64_u32) simp_all
  from find_probe_defined [OF assms(3,4) _ _ this] hash_span [OF assms(2), of sz] assms(1)
  obtain r where r: "find_probe (unat (c_hash_bucket_count ?c)) ?c name (lookup_hash name) ?s = Some r"
    by auto
  have "header_has_hash (header_of m)" using True by (simp add: opened_def Let_def)
  moreover have "x \<in> set (c_resources ?c) \<and> has_name ?c name x" if "r = Some x" for x
    using find_probe_sound [of _ ?c name] r that by fastforce
  ultimately show thesis using True r that [of r] by (simp add: erf_find_in_def Let_def)
next
  case False
  let ?c = "opened m sz"
  from find_linear_defined [OF assms(3,4) order_refl] obtain r where
    r: "find_linear ?c name (c_resources ?c) = Some r"
    "r = None \<longleftrightarrow> (\<forall>x\<in>set (c_resources ?c). \<not> has_name ?c name x)" by auto
  have "x \<in> set (c_resources ?c) \<and> has_name ?c name x" if "r = Some x" for x
    using find_linear_sound r(1) that by auto
  then show thesis using False r that [of r] by (auto simp: erf_find_in_def)
qed

text \<open>
  C12. The lookup by name is safe and sound on every container that \<open>erf_open_memory\<close> accepts
  and whose names are terminated inside the memory, however its hash table was filled: it
  returns, it reports \<open>ERF_OK\<close> exactly when it gives a resource, that resource is one of the
  container's and its name is the one asked for; without a hash table it misses no name.
\<close>

theorem erf_find_in_sound:
  assumes "unat sz \<le> length m" and "erf_valid m (unat sz)" and "names_end (opened m sz)"
    and "no_nul name"
  shows "\<exists>r. erf_find_in (Some (opened m sz)) (Some name) e
      = Some (r, if r = None then ERF_ERR_NOT_FOUND else ERF_OK)
    \<and> (\<forall>x. r = Some x \<longrightarrow> x \<in> set (c_resources (opened m sz))
        \<and> mem_read m (unat (res_name x)) (Suc (length name)) = Some (cstr name))
    \<and> (\<not> header_has_hash (header_of m) \<longrightarrow>
        (r = None \<longleftrightarrow> (\<forall>x\<in>set (c_resources (opened m sz)). \<not> has_name (opened m sz) name x)))"
proof -
  from find_in_returns [OF assms, of e] obtain r where
    r: "erf_find_in (Some (opened m sz)) (Some name) e = Some (found r)"
    "\<forall>x. r = Some x \<longrightarrow> x \<in> set (c_resources (opened m sz)) \<and> has_name (opened m sz) name x"
    "\<not> header_has_hash (header_of m) \<longrightarrow>
        (r = None \<longleftrightarrow> (\<forall>x\<in>set (c_resources (opened m sz)). \<not> has_name (opened m sz) name x))" .
  moreover have "c_base (opened m sz) = m" by (simp add: opened_def Let_def)
  ultimately show ?thesis using has_name_reads [of "opened m sz" name] by (simp add: found_def)
qed

section \<open>The metadata walk\<close>

text \<open>A length-prefixed string inside the first \<open>n\<close> bytes.\<close>

definition string_inside :: "memory \<Rightarrow> nat \<Rightarrow> u64 \<Rightarrow> bool" where
  "string_inside m n p \<longleftrightarrow> 4 \<le> unat p
     \<and> (\<exists>len. mem_read m (unat p - 4) 4 = Some len \<and> unat p + unat (get32 len) + 1 \<le> n)"

lemma unat_off_plus: "unat (off :: u64) + unat k \<le> unat (sz :: u64) \<Longrightarrow> unat (off + k) = unat off + unat k"
proof -
  assume "unat off + unat k \<le> unat sz"
  then have "unat off + unat k < 2 ^ 64" using unat_u64_bound [of sz] by (rule le_less_trans)
  then show ?thesis by (rule unat_add_u64)
qed

lemma unat_len_plus_1: "unat (ucast (len :: u32) + 1 :: u64) = unat len + 1"
  using unat_u32_bound [of len] by (subst unat_add_u64) simp_all

lemma metadata_pair_safe:
  assumes n: "unat sz \<le> length m"
  shows "\<exists>r. metadata_pair m sz off = Some r
    \<and> (\<forall>key val after. r = Some (key, val, after) \<longrightarrow>
         string_inside m (unat sz) key \<and> string_inside m (unat sz) val)"
proof (cases "in_bounds sz off 4")
  case False
  then show ?thesis by (simp add: metadata_pair_def)
next
  case b1: True
  then have le1: "unat off + unat (4 :: u64) \<le> unat sz" by (simp only: in_bounds_iff)
  then obtain kb where k: "mem_read m (unat off) 4 = Some kb" using n by (auto simp: mem_read_def)
  have o1: "unat (off + 4) = unat off + 4" using unat_off_plus [OF le1] by simp
  let ?key = "off + 4" and ?kl = "ucast (get32 kb) + 1 :: u64"
  show ?thesis
  proof (cases "in_bounds sz ?key ?kl")
    case False
    then show ?thesis using b1 k by (simp add: metadata_pair_def Let_def)
  next
    case b2: True
    then have le2: "unat ?key + unat ?kl \<le> unat sz" by (simp only: in_bounds_iff)
    let ?voff = "?key + ?kl"
    have o2: "unat ?voff = unat ?key + unat ?kl" using le2 by (rule unat_off_plus)
    show ?thesis
    proof (cases "in_bounds sz ?voff 4")
      case False
      then show ?thesis using b1 b2 k by (simp add: metadata_pair_def Let_def)
    next
      case b3: True
      then have le3: "unat ?voff + unat (4 :: u64) \<le> unat sz" by (simp only: in_bounds_iff)
      then obtain vb where v: "mem_read m (unat ?voff) 4 = Some vb" using n by (auto simp: mem_read_def)
      have o3: "unat (?voff + 4) = unat ?voff + 4" using unat_off_plus [OF le3] by simp
      have k': "string_inside m (unat sz) ?key"
        using k o1 le2 unat_len_plus_1 [of "get32 kb"] by (auto simp: string_inside_def)
      have v': "string_inside m (unat sz) (?voff + 4)"
        if "in_bounds sz (?voff + 4) (ucast (get32 vb) + 1)"
        using v o3 that [unfolded in_bounds_iff] unat_len_plus_1 [of "get32 vb"] by (simp add: string_inside_def)
      show ?thesis using b1 b2 b3 k v k' v'
        by (simp add: metadata_pair_def Let_def)
    qed
  qed
qed

lemma metadata_walk_safe:
  assumes n: "unat sz \<le> length m"
  shows "\<exists>r. metadata_walk m sz off k = Some r
    \<and> (\<forall>key val. r = Some (key, val) \<longrightarrow> string_inside m (unat sz) key \<and> string_inside m (unat sz) val)"
proof (induction k arbitrary: off)
  case (0 off)
  from metadata_pair_safe [OF n, of off] show ?case by (auto split: option.splits)
next
  case (Suc k off)
  from metadata_pair_safe [OF n, of off] obtain r where r: "metadata_pair m sz off = Some r" by auto
  show ?case
  proof (cases r)
    case None
    then show ?thesis using r by simp
  next
    case (Some p)
    obtain key val after where "p = (key, val, after)" by (cases p)
    with r Some Suc.IH [of after] show ?thesis by simp
  qed
qed


section \<open>The checksum\<close>

text \<open>The bytes of a container with the checksum field cleared.\<close>

definition cleared :: "memory \<Rightarrow> memory" where
  "cleared m = take 88 m @ put64 0 @ drop 96 m"

definition stored_checksum :: "memory \<Rightarrow> u64" where
  "stored_checksum m = get64 (take 8 (drop 88 m))"

lemma header_checksum: "160 \<le> length m \<Longrightarrow> h_checksum (header_of m) = stored_checksum m"
  by (simp add: header_of_def get_header_def field_def stored_checksum_def drop_take)

lemma verify_checksum_spec:
  assumes n: "unat sz \<le> length m" and big: "160 \<le> unat sz"
  shows "erf_verify_checksum (Some (opened m sz))
    = Some (elfr_crc64 (cleared (take (unat sz) m)) = stored_checksum m)"
proof -
  let ?m = "take (unat sz) m"
  have "mem_write ?m 88 (put64 0) = Some (cleared ?m)"
    using n big by (simp add: mem_write_def cleared_def)
  moreover have "mem_read m 0 (unat sz) = Some ?m" using n by (simp add: mem_read_def)
  ultimately show ?thesis
    using header_checksum [of m] n big by (simp add: erf_verify_checksum_def)
qed

lemma cleared_before:
  "length xs + length u \<le> 88 \<Longrightarrow> cleared (xs @ u @ ys) = xs @ u
     @ (take (88 - length xs - length u) ys @ put64 0 @ drop (96 - length xs - length u) ys)"
  by (simp add: cleared_def)

lemma cleared_after:
  "96 \<le> length xs \<Longrightarrow> cleared (xs @ u @ ys) = (take 88 xs @ put64 0 @ drop 96 xs) @ u @ ys"
  by (simp add: cleared_def)

lemma stored_checksum_stable:
  assumes "length u = length v" and "length xs + length u \<le> 88 \<or> 96 \<le> length xs"
  shows "stored_checksum (xs @ u @ ys) = stored_checksum (xs @ v @ ys)"
  using assms by (auto simp: stored_checksum_def drop_append)

lemma cleared_burst:
  assumes "length u = length v" and "length u \<le> 8" and "u \<noteq> v"
    and "length xs + length u \<le> 88 \<or> 96 \<le> length xs"
  shows "elfr_crc64 (cleared (xs @ u @ ys)) \<noteq> elfr_crc64 (cleared (xs @ v @ ys))"
  using assms(4)
proof
  assume l: "length xs + length u \<le> 88"
  then have "length xs + length v \<le> 88" using assms(1) by simp
  with l show ?thesis
    unfolding cleared_before [OF l] cleared_before [OF \<open>length xs + length v \<le> 88\<close>]
    using elfr_crc64_burst [OF assms(1,2,3)] assms(1) by simp
next
  assume l: "96 \<le> length xs"
  show ?thesis
    unfolding cleared_after [OF l] by (rule elfr_crc64_burst [OF assms(1,2,3)])
qed

text \<open>
  C20. \<open>erf_verify_checksum\<close> detects corruption: if a container verifies, then after any change
  confined to eight consecutive bytes outside the checksum field it no longer does, as long as
  the changed bytes still open.
\<close>

theorem erf_verify_checksum_detects:
  assumes "m = xs @ u @ ys" and "m' = xs @ v @ ys" and "length u = length v" and "length u \<le> 8"
    and "u \<noteq> v" and "length xs + length u \<le> 88 \<or> 96 \<le> length xs"
    and "unat sz = length m" and "erf_open_memory (Some m) sz e = Some (Some c, e1)"
    and "erf_open_memory (Some m') sz e = Some (Some c', e2)"
    and "erf_verify_checksum (Some c) = Some True"
  shows "erf_verify_checksum (Some c') = Some False"
proof -
  have len: "length m' = length m" using assms(1-3) by simp
  have c: "erf_valid m (unat sz)" "c = opened m sz"
    using erf_open_memory_spec [of sz m e] assms(7,8) by (auto split: if_splits)
  have c': "c' = opened m' sz"
    using erf_open_memory_spec [of sz m' e] assms(7,9) len by (auto split: if_splits)
  have big: "160 \<le> unat sz" using c(1) by (simp add: erf_valid_def)
  have "elfr_crc64 (cleared m) = stored_checksum m"
    using verify_checksum_spec [of sz m] big assms(7,10) c(2) by simp
  moreover have "stored_checksum m' = stored_checksum m"
    unfolding assms(1,2) using stored_checksum_stable [OF assms(3,6)] by simp
  moreover have "elfr_crc64 (cleared m) \<noteq> elfr_crc64 (cleared m')"
    unfolding assms(1,2) using assms(3-6) by (rule cleared_burst)
  ultimately show ?thesis
    using verify_checksum_spec [of sz m'] big assms(7) c' len by simp
qed

section \<open>A small container\<close>

definition tiny_header :: "nat \<Rightarrow> u64 \<Rightarrow> ERFHeader" where
  "tiny_header n crc =
     \<lparr>h_magic = ERF_MAGIC, h_version_major = 1, h_version_minor = 0, h_header_size = 160, h_flags = 0,
      h_resource_count = 1, h_directory_entry_size = 128, h_reserved0 = 0, h_directory_offset = 160,
      h_string_offset = 288, h_metadata_offset = 0, h_hash_table_offset = 0, h_signature_offset = 0,
      h_data_offset = 288, h_total_size = of_nat n, h_checksum = crc, h_reserved = replicate 8 0\<rparr>"

definition tiny_entry :: ERFDirectoryEntry where
  "tiny_entry =
     \<lparr>d_id = 7, d_type = 0, d_language = 0, d_flags = 0, d_name_offset = 288, d_reserved0 = 0,
      d_data_offset = 288, d_data_size = 1, d_original_size = 1, d_metadata_offset = 0,
      d_hash = 0, d_checksum = 0, d_timestamp = 0, d_reserved = replicate 6 0\<rparr>"

definition tiny :: "u8 list \<Rightarrow> u64 \<Rightarrow> memory" where
  "tiny tail crc = put_header (tiny_header (288 + length tail) crc) @ put_entry tiny_entry @ tail"

lemma tiny_parts:
  "length (put_header (tiny_header n crc)) = 160" "get_header (put_header (tiny_header n crc)) = tiny_header n crc"
  "length (put_entry tiny_entry) = 128" "get_entry (put_entry tiny_entry) = tiny_entry"
  using header_codec.enc_length [of "tiny_header n crc"] header_codec.dec_enc [of "tiny_header n crc"]
    entry_codec.enc_length [of tiny_entry] entry_codec.dec_enc [of tiny_entry]
  by (simp_all add: sizeof_defs header_ok_def entry_ok_def tiny_header_def tiny_entry_def ERF_MAGIC_def)

lemma header_of_tiny: "header_of (tiny tail crc) = tiny_header (288 + length tail) crc"
  using tiny_parts by (simp add: header_of_def tiny_def)

lemma length_tiny: "length (tiny tail crc) = 288 + length tail"
  using tiny_parts by (simp add: tiny_def)

lemma tiny_entry_at: "entry_at (tiny tail crc) (tiny_header n crc) 0 = tiny_entry"
proof -
  have "unat (h_directory_offset (tiny_header n crc)) = 160" by (simp add: tiny_header_def)
  then show ?thesis using tiny_parts by (simp add: entry_at_def tiny_def)
qed

lemma tiny_valid:
  assumes "tail \<noteq> []" and "length tail < 1000"
  shows "erf_valid (tiny tail crc) (288 + length tail)"
proof -
  let ?h = "tiny_header (288 + length tail) crc"
  have l: "Suc 0 \<le> length tail" using assms(1) by (cases tail) simp_all
  have t: "unat (of_nat (288 + length tail) :: u64) = 288 + length tail"
    using assms(2) by (intro unat_of_nat_u64) simp
  have e: "entry_at (tiny tail crc) ?h 0 = tiny_entry" by (rule tiny_entry_at)
  have "header_valid ?h (288 + length tail)" "hash_valid (tiny tail crc) ?h"
    unfolding header_valid_def hash_valid_def header_has_hash_def tiny_header_def using t
    by (simp_all add: ERF_VERSION_MAJOR_def ERF_MAGIC_def del: of_nat_add)
  moreover have "entry_fits ?h tiny_entry"
    unfolding entry_fits_def tiny_header_def tiny_entry_def using t l assms(1) by (simp del: of_nat_add)
  moreover have "unat (h_resource_count ?h) = 1" by (simp add: tiny_header_def)
  ultimately show ?thesis unfolding erf_valid_def header_of_tiny using e by auto
qed

lemma tiny_resources:
  "c_resources (opened (tiny tail crc) sz) = [resource_of_entry tiny_entry]"
proof -
  let ?h = "tiny_header (288 + length tail) crc"
  have "unat (h_resource_count ?h) = 1" by (simp add: tiny_header_def)
  then show ?thesis by (simp add: opened_def Let_def header_of_tiny tiny_entry_at)
qed

lemma tiny_no_hash: "\<not> header_has_hash (header_of (tiny tail crc))"
  by (simp add: header_of_tiny header_has_hash_def tiny_header_def)

lemma tiny_name: "unat (res_name (resource_of_entry tiny_entry)) = 288"
  by (simp add: resource_of_entry_def tiny_entry_def)

lemma tiny_nth: "tiny tail crc ! (288 + i) = tail ! i"
  using tiny_parts by (simp add: tiny_def nth_append)

lemma tiny_open:
  assumes "tail \<noteq> []" and "length tail < 1000"
  shows "erf_open_memory (Some (tiny tail crc)) (of_nat (288 + length tail)) e
    = Some (Some (opened (tiny tail crc) (of_nat (288 + length tail))), ERF_OK)"
proof -
  let ?sz = "of_nat (288 + length tail) :: u64"
  have "unat ?sz = 288 + length tail" using assms(2) by (intro unat_of_nat_u64) simp
  then show ?thesis
    using erf_open_memory_spec [of ?sz "tiny tail crc" e] tiny_valid [OF assms, of crc]
    by (simp add: length_tiny verdict_ok [THEN iffD2] del: of_nat_add)
qed

text \<open>
  C38. Opening does not check that names are terminated: there is a container of 289 bytes that
  \<open>erf_open_memory\<close> accepts, and on which the lookup of the name \<open>a\<close> compares past the last
  byte of the memory it was given (the execution has no defined result), while every other part
  of the container is in bounds.
\<close>

theorem erf_find_in_unterminated_name:
  "erf_open_memory (Some (tiny (bytes_of ''a'') 0)) 289 ERF_OK
     = Some (Some (opened (tiny (bytes_of ''a'') 0) 289), ERF_OK)
   \<and> length (tiny (bytes_of ''a'') 0) = 289
   \<and> erf_find_in (Some (opened (tiny (bytes_of ''a'') 0) 289)) (Some ''a'') ERF_OK = None"
proof -
  let ?m = "tiny (bytes_of ''a'') 0"
  have a: "bytes_of ''a'' = [97]" by (simp add: bytes_of_def)
  have "?m ! 288 = 97" using tiny_nth [of "bytes_of ''a''" 0 0] by (simp add: a)
  then have "strcmp_eq ?m 288 (bytes_of ''a'') = None" by (simp add: a length_tiny)
  then have "find_linear (opened ?m 289) ''a'' [resource_of_entry tiny_entry] = None"
    by (simp add: name_matches_def tiny_name)
  then have "erf_find_in (Some (opened ?m 289)) (Some ''a'') ERF_OK = None"
    using tiny_no_hash [of "bytes_of ''a''" 0] tiny_resources [of "bytes_of ''a''" 0 289]
    by (simp add: erf_find_in_def del: find_linear.simps)
  then show ?thesis
    using tiny_open [of "bytes_of ''a''" 0 ERF_OK] by (simp add: a length_tiny)
qed

section \<open>The properties at concrete containers\<close>

text \<open>The small container with its own checksum stored in it.\<close>

definition sealed :: "u8 list \<Rightarrow> memory" where
  "sealed tail = tiny tail (elfr_crc64 (cleared (tiny tail 0)))"

lemma cleared_tiny: "cleared (tiny tail crc) = cleared (tiny tail crc')"
proof -
  have "take 88 (put_header (tiny_header n crc)) = take 88 (put_header (tiny_header n crc'))
      \<and> drop 96 (put_header (tiny_header n crc)) = drop 96 (put_header (tiny_header n crc'))" for n
    by (simp add: put_header_def tiny_header_def ERF_MAGIC_def)
  then show ?thesis using tiny_parts by (simp add: cleared_def tiny_def)
qed

lemma stored_checksum_tiny: "stored_checksum (tiny tail crc) = crc"
  using header_checksum [of "tiny tail crc"] by (simp add: length_tiny header_of_tiny tiny_header_def)

lemma sealed_verifies:
  assumes "tail \<noteq> []" and "length tail < 1000"
  shows "erf_verify_checksum (Some (opened (sealed tail) (of_nat (288 + length tail)))) = Some True"
proof -
  have "unat (of_nat (288 + length tail) :: u64) = 288 + length tail"
    using assms(2) by (intro unat_of_nat_u64) simp
  then show ?thesis
    using verify_checksum_spec [of "of_nat (288 + length tail)" "sealed tail"]
      cleared_tiny [of tail "elfr_crc64 (cleared (tiny tail 0))" 0]
    by (simp add: sealed_def length_tiny stored_checksum_tiny del: of_nat_add)
qed

lemma tiny_names_end: "names_end (opened (tiny [97, 0] crc) sz)"
  using tiny_nth [of "[97, 0]" crc 1]
  by (auto simp: names_end_def tiny_resources tiny_name length_tiny intro!: exI [of _ 289])

theorem erf_find_in_sound_witness:
  "\<exists>r. erf_find_in (Some (opened (tiny [97, 0] 0) 290)) (Some ''a'') ERF_OK
      = Some (r, if r = None then ERF_ERR_NOT_FOUND else ERF_OK)
    \<and> (\<forall>x. r = Some x \<longrightarrow> x \<in> set (c_resources (opened (tiny [97, 0] 0) 290))
        \<and> mem_read (tiny [97, 0] 0) (unat (res_name x)) (Suc (length ''a'')) = Some (cstr ''a''))
    \<and> (\<not> header_has_hash (header_of (tiny [97, 0] 0)) \<longrightarrow>
        (r = None \<longleftrightarrow> (\<forall>x\<in>set (c_resources (opened (tiny [97, 0] 0) 290)).
            \<not> has_name (opened (tiny [97, 0] 0) 290) ''a'' x)))"
proof (rule erf_find_in_sound)
  show "unat (290 :: u64) \<le> length (tiny [97, 0] 0)" by (simp add: length_tiny)
  show "erf_valid (tiny [97, 0] 0) (unat (290 :: u64))" using tiny_valid [of "[97, 0]" 0] by simp
  show "names_end (opened (tiny [97, 0] 0) 290)" by (rule tiny_names_end)
  show "no_nul ''a''" by simp
qed


theorem erf_verify_checksum_detects_witness:
  "erf_verify_checksum (Some (opened (tiny [98, 0] (elfr_crc64 (cleared (tiny [97, 0] 0)))) 290)) = Some False"
proof -
  let ?crc = "elfr_crc64 (cleared (tiny [97, 0] 0))"
  let ?xs = "put_header (tiny_header 290 ?crc) @ put_entry tiny_entry"
  show ?thesis
  proof (rule erf_verify_checksum_detects)
    show "tiny [97, 0] ?crc = ?xs @ [97] @ [0]" "tiny [98, 0] ?crc = ?xs @ [98] @ [0]"
      by (simp_all add: tiny_def)
    show "length ?xs + length [97 :: u8] \<le> 88 \<or> 96 \<le> length ?xs" using tiny_parts by simp
    show "unat (290 :: u64) = length (tiny [97, 0] ?crc)" by (simp add: length_tiny)
    show "erf_open_memory (Some (tiny [97, 0] ?crc)) 290 ERF_OK
        = Some (Some (opened (tiny [97, 0] ?crc) 290), ERF_OK)" using tiny_open [of "[97, 0]" ?crc] by simp
    show "erf_open_memory (Some (tiny [98, 0] ?crc)) 290 ERF_OK
        = Some (Some (opened (tiny [98, 0] ?crc) 290), ERF_OK)" using tiny_open [of "[98, 0]" ?crc] by simp
    show "erf_verify_checksum (Some (opened (tiny [97, 0] ?crc) 290)) = Some True"
      using sealed_verifies [of "[97, 0]"] by (simp add: sealed_def)
  qed simp_all
qed

end
