(* ===== verification/Erf_Roundtrip.thy ===== *)
theory Erf_Roundtrip
  imports Erf_Safety Container_Layout
begin

text \<open>
  Compiler and library together: what \<open>elfrc_container_build\<close> writes, the library opens,
  verifies and finds again. Everything rests on the specification \<open>container_image\<close>.
\<close>

section \<open>An image is a valid container\<close>

lemma image_header:
  assumes image: "container_image img rs ns ds h es tbl"
  shows "header_describes img rs ns (length tbl) h"
  using image by (simp add: container_image_def)

lemma image_entry:
  assumes image: "container_image img rs ns ds h es tbl"
  shows "i < length rs \<Longrightarrow> entry_describes img (160 + 128 * length rs) (rs ! i) (ns ! i) (ds ! i) (es ! i)"
  using image by (simp add: container_image_def)

lemma image_header_ok:
  assumes image: "container_image img rs ns ds h es tbl"
  shows "header_ok h"
  using image_header [OF image] by (simp add: header_describes_def header_ok_def ERF_MAGIC_def)

lemma image_length_es:
  assumes image: "container_image img rs ns ds h es tbl"
  shows "length es = length rs"
  using image by (simp add: container_image_def)

lemma image_entries_ok:
  assumes image: "container_image img rs ns ds h es tbl"
  shows "\<forall>e\<in>set es. entry_ok e"
  using image_entry [OF image] image_length_es [OF image]
  by (auto simp: in_set_conv_nth entry_describes_def entry_ok_def)

lemma image_header_of:
  assumes image: "container_image img rs ns ds h es tbl"
  shows "header_of img = h"
proof -
  have "take 160 img = put_header h"
    using image by (simp add: container_image_def mem_read_eq_Some)
  then show ?thesis using header_codec.dec_enc [OF image_header_ok [OF image]] by (simp add: header_of_def)
qed

lemma image_count:
  assumes image: "container_image img rs ns ds h es tbl"
    and "length ns = length rs"
  shows "length rs < 2 ^ 32 - 1" and "unat (of_nat (length rs) :: u32) = length rs"
proof -
  have "length ns \<le> length tbl" "length tbl \<le> 2 ^ 31"
    using image by (simp_all add: container_image_def index_represents_def index_ok_def)
  then show "length rs < 2 ^ 32 - 1" using assms(2) by simp
  then show "unat (of_nat (length rs) :: u32) = length rs" by (intro unat_of_nat_u32) simp
qed

lemma image_entry_at:
  assumes image: "container_image img rs ns ds h es tbl"
    and i: "i < length rs"
  shows "entry_at img h i = es ! i"
proof -
  have "mem_read img 160 (sizeof_ERFDirectoryEntry * length es) = Some (entry_codec.enc_array es)"
    using image by (simp add: container_image_def sizeof_defs entry_codec.enc_array_def)
  from entry_codec.mem_read_array [OF image_entries_ok [OF image] _ this, of i] i image_length_es [OF image]
  have "mem_read img (160 + 128 * i) 128 = Some (put_entry (es ! i))" by (simp add: sizeof_defs)
  moreover have "unat (h_directory_offset h) = 160" "unat (h_directory_entry_size h) = 128"
    using image_header [OF image] by (simp_all add: header_describes_def)
  moreover have "entry_ok (es ! i)" using i image_length_es [OF image] image_entries_ok [OF image] by simp
  ultimately show ?thesis
    using entry_codec.dec_enc [of "es ! i"]
    by (simp add: entry_at_def mem_read_eq_Some mult.commute)
qed

lemma image_has_hash:
  assumes image: "container_image img rs ns ds h es tbl"
  shows "header_has_hash h"
proof -
  have "h_flags h AND ERF_HFLAG_HASH_TABLE_PRESENT \<noteq> 0"
    using image_header [OF image]
    by (simp add: header_describes_def expected_flags_def ERF_HFLAG_HASH_TABLE_PRESENT_def
        ERF_HFLAG_METADATA_PRESENT_def ERF_HFLAG_LOCALIZED_def)
  moreover have "160 \<le> unat (h_hash_table_offset h)"
    using image_header [OF image] by (auto simp: header_describes_def)
  ultimately show ?thesis by (auto simp: header_has_hash_def)
qed

lemma image_bucket_count:
  assumes image: "container_image img rs ns ds h es tbl"
  shows "bucket_count_at img h = of_nat (length tbl)"
proof -
  have "take 8 (drop (unat (h_hash_table_offset h)) img)
      = put_hash_header \<lparr>t_bucket_count = of_nat (length tbl), t_reserved0 = 0\<rparr>"
    using image by (simp add: container_image_def hash_table_at_def mem_read_eq_Some)
  then show ?thesis
    using hash_header_codec.dec_enc [of "\<lparr>t_bucket_count = of_nat (length tbl), t_reserved0 = 0\<rparr>"]
    by (simp add: bucket_count_at_def)
qed

lemma image_table_length:
  assumes image: "container_image img rs ns ds h es tbl"
  shows "length tbl < 2 ^ 32 - 1" "unat (of_nat (length tbl) :: u32) = length tbl"
proof -
  have "length tbl \<le> 2 ^ 31" using image by (simp add: container_image_def)
  then show "length tbl < 2 ^ 32 - 1" by simp
  then show "unat (of_nat (length tbl) :: u32) = length tbl" by (intro unat_of_nat_u32) simp
qed

lemma image_valid:
  assumes image: "container_image img rs ns ds h es tbl"
    and n: "length ns = length rs"
  shows "erf_valid img (length img)"
proof -
  note hd = image_header [OF image]
  have total: "unat (h_total_size h) = length img" using hd by (simp add: header_describes_def)
  have "160 + 128 * length rs \<le> length img"
    using image by (auto simp: container_image_def dest: mem_read_bound)
  moreover have so: "unat (h_string_offset h) \<le> length img"
    using hd by (auto simp: header_describes_def dest: mem_read_bound)
  ultimately have hv: "header_valid h (length img)"
    using hd total image_count(2) [OF image n] by (simp add: header_describes_def header_valid_def)
  have "unat (h_hash_table_offset h) + 8 + 16 * length tbl \<le> length img"
    using image by (auto simp: container_image_def hash_table_at_def dest: mem_read_bound)
  then have hash: "hash_valid img h"
    using total image_table_length(2) [OF image] by (simp add: hash_valid_def image_bucket_count [OF image])
  have "entry_fits h (es ! i)" if i: "i < length rs" for i
    using image_entry [OF image i] total reads_cstr_bound
    by (fastforce simp: entry_describes_def place_at_def entry_fits_def dest: mem_read_bound)
  then have "\<forall>i < unat (h_resource_count h). entry_fits h (entry_at img h i)"
    using hd image_count(2) [OF image n] image_entry_at [OF image] by (simp add: header_describes_def)
  moreover have "160 \<le> length img" using image by (auto simp: container_image_def dest: mem_read_bound)
  ultimately show ?thesis using hv hash by (simp add: erf_valid_def image_header_of [OF image])
qed

lemma image_resources:
  assumes image: "container_image img rs ns ds h es tbl"
    and "length ns = length rs"
  shows "c_resources (opened img sz) = map resource_of_entry es"
proof -
  have "unat (h_resource_count h) = length rs"
    using image_header [OF image] image_count(2) [OF assms] by (simp add: header_describes_def)
  then show ?thesis
    using image_entry_at [OF image] image_length_es [OF image]
    by (intro nth_equalityI) (simp_all add: opened_def Let_def image_header_of [OF image])
qed

section \<open>Looking up names\<close>

lemma strcmp_eq_reads_cstr:
  assumes "reads_cstr m off n" and "no_nul n" and "no_nul q"
  shows "strcmp_eq m off (bytes_of q) = Some (n = q)"
proof -
  have bound: "off + Suc (length n) \<le> length m" using assms(1) by (rule reads_cstr_bound)
  have "take (Suc (length n)) (drop off m) ! length n = cstr n ! length n"
    using assms(1) by (simp add: reads_cstr_def mem_read_eq_Some)
  then have "m ! (off + length n) = 0" using bound by (simp add: cstr_def nth_append)
  then obtain b where b: "strcmp_eq m off (bytes_of q) = Some b"
    using strcmp_eq_defined [of off "off + length n" m "bytes_of q"] bound no_nul_bytes [OF assms(3)] by auto
  have "b \<longleftrightarrow> reads_cstr m off q"
    using b strcmp_eq_reads [of m off "bytes_of q"] by (simp add: reads_cstr_def cstr_def)
  then have "b \<longleftrightarrow> n = q" using assms reads_cstr_unique by blast
  then show ?thesis using b by simp
qed

text \<open>The probe loop over memory is the probe loop over the list of buckets.\<close>

lemma find_probe_list:
  assumes tbl: "\<And>i. i < length tbl \<Longrightarrow>
      mem_read (c_base c) (unat (c_hash_buckets c) + 16 * i) 16 = Some (put_bucket (tbl ! i))"
    and bc: "unat (c_hash_bucket_count c) = length tbl"
    and count: "unat (c_resource_count c) = length ns"
    and names: "\<And>i. i < length ns \<Longrightarrow> name_matches c (c_resources c ! i) q = Some (ns ! i = q)"
    and slot: "unat slot < length tbl"
  shows "find_probe k c q h slot
    = Some (map_option (\<lambda>i. c_resources c ! unat i)
        (probe_find k tbl (same_name ns q) (c_hash_bucket_count c) h slot))"
  using slot
proof (induction k arbitrary: slot)
  case 0
  then show ?case by simp
next
  case (Suc k)
  let ?next = "(slot + 1) mod c_hash_bucket_count c"
  let ?b = "tbl ! unat slot"
  have read: "mem_read (c_base c) (unat (c_hash_buckets c) + sizeof_ERFHashBucket * unat slot)
      sizeof_ERFHashBucket = Some (put_bucket ?b)"
    using tbl [OF Suc.prems] by (simp add: sizeof_defs)
  have dec: "get_bucket (put_bucket ?b) = ?b" using bucket_codec.dec_enc by simp
  have "0 < length tbl" using Suc.prems by linarith
  then have "unat ?next < length tbl" using bc by (simp add: unat_mod_distrib)
  then have IH: "find_probe k c q h ?next = Some (map_option (\<lambda>i. c_resources c ! unat i)
      (probe_find k tbl (same_name ns q) (c_hash_bucket_count c) h ?next))" by (rule Suc.IH)
  have hit: "(if b_hash ?b = h \<and> b_directory_index ?b < c_resource_count c
      then name_matches c (c_resources c ! unat (b_directory_index ?b)) q else Some False)
    = Some (b_hash ?b = h \<and> same_name ns q (b_directory_index ?b))"
    using names [of "unat (b_directory_index ?b)"] count
    by (auto simp: same_name_def word_less_nat_alt)
  show ?case
    using read dec IH hit by (auto simp: Let_def)
qed

lemma image_name_matches:
  assumes image: "container_image img rs ns ds h es tbl" and n: "length ns = length rs"
    and i: "i < length ns" and nul: "no_nul (ns ! i)" "no_nul q"
  shows "name_matches (opened img sz) (c_resources (opened img sz) ! i) q = Some (ns ! i = q)"
proof -
  have "reads_cstr img (unat (d_name_offset (es ! i))) (ns ! i)"
    using image_entry [OF image, of i] i n by (simp add: entry_describes_def)
  from strcmp_eq_reads_cstr [OF this nul] show ?thesis
    using i n image_length_es [OF image]
    by (simp add: name_matches_def image_resources [OF image n] resource_of_entry_def)
qed

lemma image_buckets:
  assumes image: "container_image img rs ns ds h es tbl" and i: "i < length tbl"
  shows "mem_read img (unat (c_hash_buckets (opened img sz)) + 16 * i) 16 = Some (put_bucket (tbl ! i))"
proof -
  have at: "mem_read img (unat (h_hash_table_offset h) + 8) (16 * length tbl)
      = Some (concat (map put_bucket tbl))"
    using image by (simp add: container_image_def hash_table_at_def)
  then have "unat (h_hash_table_offset h) + 8 \<le> length img" by (auto dest: mem_read_bound)
  moreover have "length img < 2 ^ 64"
    using image_header [OF image] unat_u64_bound [of "h_total_size h"] by (simp add: header_describes_def)
  ultimately have "unat (h_hash_table_offset h + 8) = unat (h_hash_table_offset h) + unat (8 :: u64)"
    by (intro unat_add_u64) simp
  moreover have "c_hash_buckets (opened img sz) = h_hash_table_offset h + 8"
    using image_has_hash [OF image] by (simp add: opened_def Let_def image_header_of [OF image])
  ultimately show ?thesis
    using bucket_codec.mem_read_array [of tbl i img "unat (h_hash_table_offset h) + 8"] i at
    by (simp add: bucket_codec.enc_array_def sizeof_defs)
qed

lemma image_find:
  assumes image: "container_image img rs ns ds h es tbl" and n: "length ns = length rs"
    and nul: "\<forall>x\<in>set ns. no_nul x" and q: "no_nul q"
  shows "erf_find_in (Some (opened img sz)) (Some q) e
    = Some (found (map_option (\<lambda>i. c_resources (opened img sz) ! i) (first_index q ns)))"
proof -
  let ?c = "opened img sz"
  have hh: "c_has_hash_table ?c" "c_hash_bucket_count ?c = of_nat (length tbl)"
    using image_has_hash [OF image] image_bucket_count [OF image]
    by (simp_all add: opened_def Let_def image_header_of [OF image])
  have t: "16 \<le> length tbl" "index_represents tbl ns" using image by (simp_all add: container_image_def)
  have bc: "unat (c_hash_bucket_count ?c) = length tbl"
    using image_table_length(2) [OF image] hh(2) by simp
  have "unat (h_resource_count h) = length rs"
    using image_header [OF image] image_count(2) [OF image n] by (simp add: header_describes_def)
  then have count: "unat (c_resource_count ?c) = length ns" by (simp add: image_header_of [OF image] n)
  let ?s = "start_slot (c_hash_bucket_count ?c) (lookup_hash q)"
  have pos: "0 < unat (c_hash_bucket_count ?c)" using bc t(1) by linarith
  have s: "unat ?s < length tbl" using start_slot_unat(2) [OF pos] bc by simp
  have "find_probe (length tbl) ?c q (lookup_hash q) ?s
    = Some (map_option (\<lambda>i. c_resources ?c ! unat i)
        (probe_find (length tbl) tbl (same_name ns q) (c_hash_bucket_count ?c) (lookup_hash q) ?s))"
    using image_buckets [OF image] bc count image_name_matches [OF image n _ _ q] nul s
    by (intro find_probe_list) simp_all
  also have "\<dots> = Some (map_option (\<lambda>i. c_resources ?c ! i) (index_find ns tbl q))"
    by (simp add: index_find_def hh(2) lookup_hash_fnv option.map_comp o_def)
  also have "index_find ns tbl q = first_index q ns" by (rule names.find_spec [OF t(2)])
  finally show ?thesis
    using hh(1) bc pos
    by (simp add: erf_find_in_def Let_def start_slot_def word_less_nat_alt)
qed

section \<open>The checksum of an image\<close>

lemma cleared_image:
  assumes image: "container_image img rs ns ds h es tbl"
  shows "cleared img = put_header (h\<lparr>h_checksum := 0\<rparr>) @ drop 160 img"
proof -
  have "take 160 img = put_header h"
    using image by (simp add: container_image_def mem_read_eq_Some)
  then have split: "img = put_header h @ drop 160 img" by (metis append_take_drop_id)
  have magic: "length (h_magic h) = 4" using image_header_ok [OF image] by (simp add: header_ok_def)
  have "length (put_header h) = 160" using image_header_ok [OF image] by (rule length_put_header)
  then have "cleared (put_header h @ r) = cleared (put_header h) @ r" for r by (simp add: cleared_def)
  moreover have "cleared (put_header h) = put_header (h\<lparr>h_checksum := 0\<rparr>)"
    using magic by (simp add: cleared_def put_header_def)
  ultimately show ?thesis by (metis split)
qed

lemma image_verifies:
  assumes image: "container_image img rs ns ds h es tbl" and sz: "unat sz = length img"
  shows "erf_verify_checksum (Some (opened img sz)) = Some True"
proof -
  have big: "160 \<le> length img" using image by (auto simp: container_image_def dest: mem_read_bound)
  have "stored_checksum img = h_checksum h"
    using header_checksum [OF big] image_header_of [OF image] by simp
  moreover have "h_checksum h = elfr_crc64 (cleared img)"
    using image_header [OF image] cleared_image [OF image] by (simp add: header_describes_def)
  ultimately show ?thesis using verify_checksum_spec [of sz img] sz big by simp
qed

section \<open>The metadata of an image\<close>

lemma mem_read_appendD:
  assumes "mem_read m off (length (a @ b)) = Some (a @ b)"
  shows "mem_read m off (length a) = Some a" and "mem_read m (off + length a) (length b) = Some b"
proof -
  have "mem_read m (off + 0) (length a) = Some (take (length a) (drop 0 (a @ b)))"
    by (rule mem_read_part [OF assms]) simp
  then show "mem_read m off (length a) = Some a" by simp
  have "mem_read m (off + length a) (length b) = Some (take (length b) (drop (length a) (a @ b)))"
    by (rule mem_read_part [OF assms]) simp
  then show "mem_read m (off + length a) (length b) = Some b" by simp
qed

lemma get32_of_nat: "n < 2 ^ 32 \<Longrightarrow> unat (get32 (put32 (of_nat n))) = n"
  by (simp add: unat_of_nat_u32)

lemma metadata_pair_at:
  assumes at: "mem_read m (unat off) (length (kv_bytes kv)) = Some (kv_bytes kv)"
    and fits: "unat off + length (kv_bytes kv) \<le> unat sz" and small: "length (kv_bytes kv) < 2 ^ 32"
  obtains key val after where "metadata_pair m sz off = Some (Some (key, val, after))"
    "reads_cstr m (unat key) (m_key kv)" "reads_cstr m (unat val) (m_value kv)"
    "unat after = unat off + length (kv_bytes kv)"
proof -
  let ?k = "m_key kv" and ?v = "m_value kv"
  let ?kl = "put32 (of_nat (length ?k))" and ?vl = "put32 (of_nat (length ?v))"
  have len: "length (kv_bytes kv) = 10 + length ?k + length ?v" by (rule length_kv_bytes)
  have s1: "mem_read m (unat off) (length (?kl @ cstr ?k @ ?vl @ cstr ?v)) = Some (?kl @ cstr ?k @ ?vl @ cstr ?v)"
    using at by (simp only: kv_bytes_def)
  note r1 = mem_read_appendD [OF s1]
  note r2 = mem_read_appendD [OF r1(2)]
  note r3 = mem_read_appendD [OF r2(2)]
  have kb: "unat (get32 ?kl) = length ?k" "unat (get32 ?vl) = length ?v"
    using small len by (intro get32_of_nat, simp)+
  let ?key = "off + 4" and ?ks = "ucast (get32 ?kl) + 1 :: u64" and ?vs = "ucast (get32 ?vl) + 1 :: u64"
  have l: "unat ?ks = Suc (length ?k)" "unat ?vs = Suc (length ?v)"
    by (simp_all only: unat_len_plus_1 kb Suc_eq_plus1)
  have o1: "unat off + unat (4 :: u64) \<le> unat sz" using fits len by simp
  have u1: "unat ?key = unat off + 4" using unat_off_plus [OF o1] by simp
  have o2: "unat ?key + unat ?ks \<le> unat sz" using u1 l fits len by simp
  have u2: "unat (?key + ?ks) = unat off + 4 + Suc (length ?k)" using unat_off_plus [OF o2] u1 l by simp
  have o3: "unat (?key + ?ks) + unat (4 :: u64) \<le> unat sz" using u2 fits len by simp
  have u3: "unat (?key + ?ks + 4) = unat off + 8 + Suc (length ?k)" using unat_off_plus [OF o3] u2 by simp
  have o4: "unat (?key + ?ks + 4) + unat ?vs \<le> unat sz" using u3 l fits len by simp
  have u4: "unat (?key + ?ks + 4 + ?vs) = unat off + length (kv_bytes kv)"
    using unat_off_plus [OF o4] u3 l len by simp
  have m1: "mem_read m (unat off) 4 = Some ?kl" using r1(1) by simp
  have m3: "mem_read m (unat (?key + ?ks)) 4 = Some ?vl" using r3(1) unfolding u2 by simp
  have "metadata_pair m sz off = Some (Some (?key, ?key + ?ks + 4, ?key + ?ks + 4 + ?vs))"
    unfolding metadata_pair_def in_bounds_iff Let_def
    using o1 o2 o3 o4 m1 m3 by (simp del: get32_put32)
  moreover have "reads_cstr m (unat ?key) ?k" using r2(1) unfolding u1 by (simp add: reads_cstr_def)
  moreover have "reads_cstr m (unat (?key + ?ks + 4)) ?v"
    using r3(2) unfolding u3 by (simp add: reads_cstr_def add.assoc)
  ultimately show thesis using that u4 by blast
qed

lemma metadata_walk_at:
  assumes "mem_read m (unat off) (length (concat (map kv_bytes kvs))) = Some (concat (map kv_bytes kvs))"
    and "unat off + kvs_size kvs \<le> unat sz" and "kvs_size kvs < 2 ^ 32" and "k < length kvs"
  shows "\<exists>key val. metadata_walk m sz off k = Some (Some (key, val))
    \<and> reads_cstr m (unat key) (m_key (kvs ! k)) \<and> reads_cstr m (unat val) (m_value (kvs ! k))"
  using assms
proof (induction kvs arbitrary: off k)
  case Nil
  then show ?case by simp
next
  case (Cons kv kvs)
  have s: "mem_read m (unat off) (length (kv_bytes kv @ concat (map kv_bytes kvs)))
      = Some (kv_bytes kv @ concat (map kv_bytes kvs))" using Cons.prems(1) by simp
  have l: "length (kv_bytes kv) + kvs_size kvs = kvs_size (kv # kvs)" by (simp add: length_kv_bytes)
  have "unat off + length (kv_bytes kv) \<le> unat sz" "length (kv_bytes kv) < 2 ^ 32"
    using l Cons.prems(2,3) by linarith+
  from metadata_pair_at [OF mem_read_appendD(1) [OF s] this] obtain key val after where
    p: "metadata_pair m sz off = Some (Some (key, val, after))"
    "reads_cstr m (unat key) (m_key kv)" "reads_cstr m (unat val) (m_value kv)"
    "unat after = unat off + length (kv_bytes kv)" .
  show ?case
  proof (cases k)
    case 0
    with p show ?thesis by simp
  next
    case (Suc j)
    have "mem_read m (unat after) (length (concat (map kv_bytes kvs))) = Some (concat (map kv_bytes kvs))"
      using mem_read_appendD(2) [OF s] p(4) by simp
    moreover have "unat after + kvs_size kvs \<le> unat sz" "kvs_size kvs < 2 ^ 32"
      using l Cons.prems(2,3) p(4) by linarith+
    moreover have "j < length kvs" using Suc Cons.prems(4) by simp
    ultimately show ?thesis using Cons.IH [of after j] p(1) Suc by simp
  qed
qed

lemma kvs_size_le: "r \<in> set rs \<Longrightarrow> r_metadata r \<noteq> [] \<Longrightarrow> 12 + kvs_size (r_metadata r) \<le> metadata_size rs"
  by (induction rs) auto

lemma metadata_block_found:
  assumes off: "off \<noteq> 0" and ne: "kvs \<noteq> []"
    and block: "mem_read m (unat off) (length (metadata_block kvs)) = Some (metadata_block kvs)"
    and small: "12 + kvs_size kvs < 2 ^ 32"
    and c: "c_base c = m" "unat (c_size c) = length m" and r: "res_metadata_offset r = off"
  shows "erf_metadata_count (Some c) (Some r) = Some (int (length kvs))"
    and "k < length kvs \<Longrightarrow> \<exists>key val. erf_metadata_get (Some c) (Some r) (int k) = Some (0, Some (key, val))
      \<and> reads_cstr m (unat key) (m_key (kvs ! k)) \<and> reads_cstr m (unat val) (m_value (kvs ! k))"
proof -
  let ?cnt = "of_nat (length kvs) :: u32"
  have s: "mem_read m (unat off) (length (put32 ?cnt @ concat (map kv_bytes kvs)))
      = Some (put32 ?cnt @ concat (map kv_bytes kvs))" using block by (simp only: metadata_block_def)
  note parts = mem_read_appendD [OF s]
  have bound: "unat off + 4 + kvs_size kvs \<le> length m"
    using mem_read_bound [OF s] by (simp add: length_kvs_bytes)
  have len: "length kvs < 2 ^ 31" using small count_le_kvs_size [of kvs] by simp
  then have cnt: "unat ?cnt = length kvs" by (intro unat_of_nat_u32) simp
  have le: "unat off + unat (4 :: u64) \<le> unat (c_size c)" using bound c(2) by simp
  then have inb: "in_bounds (c_size c) off 4" by (simp only: in_bounds_iff)
  have read: "mem_read m (unat off) 4 = Some (put32 ?cnt)" using parts(1) by simp
  show "erf_metadata_count (Some c) (Some r) = Some (int (length kvs))"
    using off inb read c(1) r len by (simp add: erf_metadata_count_def sint_of_nat_u32)
  assume k: "k < length kvs"
  have u: "unat (off + 4) = unat off + 4" using unat_off_plus [OF le] by simp
  have at: "mem_read m (unat (off + 4)) (length (concat (map kv_bytes kvs))) = Some (concat (map kv_bytes kvs))"
    using parts(2) unfolding u by simp
  have fits: "unat (off + 4) + kvs_size kvs \<le> unat (c_size c)" "kvs_size kvs < 2 ^ 32"
    using bound u c(2) small by simp_all
  from metadata_walk_at [OF at fits k] obtain key val where
    w: "metadata_walk m (c_size c) (off + 4) k = Some (Some (key, val))"
    "reads_cstr m (unat key) (m_key (kvs ! k))" "reads_cstr m (unat val) (m_value (kvs ! k))" by auto
  have "unat (of_nat k :: u32) = k" using k len by (intro unat_of_nat_u32) simp
  then have "\<not> ?cnt \<le> of_nat k" using cnt k by (simp add: word_le_nat_alt)
  then show "\<exists>key val. erf_metadata_get (Some c) (Some r) (int k) = Some (0, Some (key, val))
      \<and> reads_cstr m (unat key) (m_key (kvs ! k)) \<and> reads_cstr m (unat val) (m_value (kvs ! k))"
    using off inb read c(1) r w by (simp add: erf_metadata_get_def)
qed

lemma image_metadata:
  assumes image: "container_image img rs ns ds h es tbl" and n: "length ns = length rs"
    and i: "i < length rs" and sz: "unat sz = length img" and small: "metadata_size rs < 2 ^ 32"
  shows "erf_metadata_count (Some (opened img sz)) (Some (c_resources (opened img sz) ! i))
      = Some (int (length (r_metadata (rs ! i))))
    \<and> (\<forall>k < length (r_metadata (rs ! i)). \<exists>key val.
        erf_metadata_get (Some (opened img sz)) (Some (c_resources (opened img sz) ! i)) (int k)
          = Some (0, Some (key, val))
        \<and> reads_cstr img (unat key) (m_key (r_metadata (rs ! i) ! k))
        \<and> reads_cstr img (unat val) (m_value (r_metadata (rs ! i) ! k)))"
proof -
  let ?off = "d_metadata_offset (es ! i)" and ?kvs = "r_metadata (rs ! i)"
  have at: "metadata_at (160 + 128 * length rs) img ?off ?kvs"
    using image_entry [OF image i] by (simp add: entry_describes_def)
  have r: "res_metadata_offset (c_resources (opened img sz) ! i) = ?off"
    using i image_length_es [OF image] by (simp add: image_resources [OF image n] resource_of_entry_def)
  show ?thesis
  proof (cases "?kvs = []")
    case True
    then show ?thesis using at r by (simp add: erf_metadata_count_def metadata_at_def)
  next
    case False
    have "12 + kvs_size ?kvs \<le> metadata_size rs" using i False by (intro kvs_size_le) simp_all
    with small have "12 + kvs_size ?kvs < 2 ^ 32" by linarith
    with at False have "?off \<noteq> 0" "12 + kvs_size ?kvs < 2 ^ 32"
      "mem_read img (unat ?off) (length (metadata_block ?kvs)) = Some (metadata_block ?kvs)"
      by (simp_all add: metadata_at_def)
    from metadata_block_found [OF this(1) False this(3,2) _ _ r] sz show ?thesis by simp
  qed
qed

section \<open>From the manifest to the reader\<close>

text \<open>
  A manifest that compiles: every resource has a name that is a C string and a readable file,
  and the container stays below its size limits. \<open>compiled_and_opened\<close> runs the compiler and
  opens its output.
\<close>

definition compiles :: "file_system \<Rightarrow> elfrc_manifest \<Rightarrow> string list \<Rightarrow> u8 list list \<Rightarrow> bool" where
  "compiles fs m ns ds \<longleftrightarrow>
     named (mf_resources m) ns \<and> map (file_bytes fs) (mf_resources m) = map Some ds
     \<and> container_fits (mf_resources m) ns ds \<and> list_all no_nul ns"

definition compiled_and_opened :: "file_system \<Rightarrow> elfrc_manifest \<Rightarrow> ERFContainer option" where
  "compiled_and_opened fs m = do {
     res \<leftarrow> elfrc_container_build fs m;
     case res of
       Inl e \<Rightarrow> None
     | Inr c \<Rightarrow> do {
         (k, err) \<leftarrow> erf_open_memory (Some (ec_data c)) (ec_size c) ERF_OK;
         k
       }
   }"

lemma compiled_image:
  assumes "compiles fs m ns ds"
  obtains img sz h es tbl where "compiled_and_opened fs m = Some (opened img sz)"
    "unat sz = length img" "container_image img (mf_resources m) ns ds h es tbl"
    "length ns = length (mf_resources m)" "\<forall>n\<in>set ns. no_nul n" "metadata_size (mf_resources m) < 2 ^ 32"
proof -
  from assms have nm: "named (mf_resources m) ns"
    and rd: "map (file_bytes fs) (mf_resources m) = map Some ds"
    and fits: "container_fits (mf_resources m) ns ds" and nul: "\<forall>n\<in>set ns. no_nul n"
    by (simp_all add: compiles_def list_all_iff)
  from build_image [OF nm rd fits] obtain c h es tbl where
    c: "elfrc_container_build fs m = Some (Inr c)"
    "container_image (ec_data c) (mf_resources m) ns ds h es tbl"
    "unat (ec_size c) = length (ec_data c)" .
  have n: "length ns = length (mf_resources m)" using nm by (rule named_length)
  have "erf_valid (ec_data c) (unat (ec_size c))" using image_valid [OF c(2) n] c(3) by simp
  then have "erf_open_memory (Some (ec_data c)) (ec_size c) ERF_OK
      = Some (Some (opened (ec_data c) (ec_size c)), ERF_OK)"
    using erf_open_memory_spec [of "ec_size c" "ec_data c" ERF_OK] c(3) by (simp add: verdict_ok)
  then have "compiled_and_opened fs m = Some (opened (ec_data c) (ec_size c))"
    using c(1) by (simp add: compiled_and_opened_def)
  moreover have "metadata_size (mf_resources m) < 2 ^ 32"
    using fits by (simp add: container_fits_def index_size_def)
  ultimately show thesis using that c(2,3) n nul by blast
qed

definition resource_agrees ::
    "memory \<Rightarrow> elfrc_resource \<Rightarrow> string \<Rightarrow> u8 list \<Rightarrow> ERFResource \<Rightarrow> bool" where
  "resource_agrees img q n d r \<longleftrightarrow>
     res_id r = r_final_id q \<and> res_type r = r_type q \<and> res_language r = r_language q
     \<and> res_flags r = r_flags q
     \<and> mem_read img (unat (res_name r)) (Suc (length n)) = Some (cstr n)
     \<and> unat (res_size r) = length d
     \<and> mem_read img (unat (res_data r)) (unat (res_size r)) = Some d"

lemma image_resource:
  assumes image: "container_image img rs ns ds h es tbl" and n: "length ns = length rs" and i: "i < length rs"
  shows "resource_agrees img (rs ! i) (ns ! i) (ds ! i) (c_resources (opened img sz) ! i)"
  using image_entry [OF image i] i image_length_es [OF image]
  by (simp add: image_resources [OF image n] resource_of_entry_def entry_describes_def
      place_at_def reads_cstr_def resource_agrees_def)

lemma image_find_id:
  assumes image: "container_image img rs ns ds h es tbl" and n: "length ns = length rs"
  shows "erf_find_id_in (Some (opened img sz)) j e
    = found (map_option (\<lambda>i. c_resources (opened img sz) ! i) (first_index j (map r_final_id rs)))"
proof -
  let ?c = "opened img sz"
  have ids: "map res_id (c_resources ?c) = map r_final_id rs"
    using image_resource [OF image n, of _ sz] image_length_es [OF image]
    by (intro nth_equalityI) (simp_all add: resource_agrees_def image_resources [OF image n])
  have "find (\<lambda>r. f r = j) xs = map_option ((!) xs) (first_index j (map f xs))"
    for f :: "ERFResource \<Rightarrow> u32" and xs
    by (induction xs) (simp_all add: option.map_comp o_def)
  from this [of res_id "c_resources ?c"] show ?thesis by (simp add: erf_find_id_in_def ids)
qed

text \<open>
  C5. Round trip of the resources: what the compiler writes, the library opens without error
  and its checksum verifies; the opened container has one resource per manifest entry, in order,
  with the entry's id, type, language, flags and name, and its data pointer reads back exactly
  the bytes of the entry's file.
\<close>

theorem erf_roundtrip_resources:
  assumes "compiles fs m ns ds"
  shows "\<exists>c. compiled_and_opened fs m = Some c \<and> erf_verify_checksum (Some c) = Some True
    \<and> unat (erf_resource_count (Some c)) = length (mf_resources m)
    \<and> (\<forall>i < length (mf_resources m).
         resource_agrees (c_base c) (mf_resources m ! i) (ns ! i) (ds ! i) (c_resources c ! i))"
proof -
  from compiled_image [OF assms] obtain img sz h es tbl where
    run: "compiled_and_opened fs m = Some (opened img sz)" and sz: "unat sz = length img"
    and image: "container_image img (mf_resources m) ns ds h es tbl"
    and n: "length ns = length (mf_resources m)" by metis
  have "unat (h_resource_count (header_of img)) = length (mf_resources m)"
    using image_header [OF image] image_count(2) [OF image n] image_header_of [OF image]
    by (simp add: header_describes_def)
  then show ?thesis
    using run image_verifies [OF image sz] image_resource [OF image n]
    by (simp add: erf_resource_count_def)
qed

text \<open>
  C4. Round trip of the lookups: on a compiled container, looking up a name gives the first
  resource of the manifest with that name and \<open>ERF_OK\<close>, or \<open>NULL\<close> and \<open>ERF_ERR_NOT_FOUND\<close> when
  the manifest has none; looking up an id does the same for ids. The hash table of the compiler
  loses and invents nothing, whatever the collisions.
\<close>

theorem erf_roundtrip_find:
  assumes "compiles fs m ns ds" and "no_nul q"
  shows "\<exists>c. compiled_and_opened fs m = Some c
    \<and> erf_find_in (Some c) (Some q) e
        = Some (found (map_option (\<lambda>i. c_resources c ! i) (first_index q ns)))
    \<and> erf_find_id_in (Some c) j e
        = found (map_option (\<lambda>i. c_resources c ! i) (first_index j (map r_final_id (mf_resources m))))"
proof -
  from compiled_image [OF assms(1)] obtain img sz h es tbl where
    run: "compiled_and_opened fs m = Some (opened img sz)" and sz: "unat sz = length img"
    and image: "container_image img (mf_resources m) ns ds h es tbl"
    and n: "length ns = length (mf_resources m)" and nul: "\<forall>n\<in>set ns. no_nul n" by metis
  show ?thesis
    using run image_find [OF image n nul assms(2)] image_find_id [OF image n] by simp
qed

text \<open>
  C10. Round trip of the metadata: on a compiled container, \<open>erf_metadata_count\<close> of every
  resource is the number of its metadata pairs and \<open>erf_metadata_get\<close> at each index returns 0
  with pointers at which the pair's key and value stand as C strings.
\<close>

theorem erf_roundtrip_metadata:
  assumes "compiles fs m ns ds" and "i < length (mf_resources m)"
  shows "\<exists>c. compiled_and_opened fs m = Some c
    \<and> erf_metadata_count (Some c) (Some (c_resources c ! i))
        = Some (int (length (r_metadata (mf_resources m ! i))))
    \<and> (\<forall>k < length (r_metadata (mf_resources m ! i)). \<exists>key val.
        erf_metadata_get (Some c) (Some (c_resources c ! i)) (int k) = Some (0, Some (key, val))
        \<and> reads_cstr (c_base c) (unat key) (m_key (r_metadata (mf_resources m ! i) ! k))
        \<and> reads_cstr (c_base c) (unat val) (m_value (r_metadata (mf_resources m ! i) ! k)))"
proof -
  from compiled_image [OF assms(1)] obtain img sz h es tbl where
    run: "compiled_and_opened fs m = Some (opened img sz)" and sz: "unat sz = length img"
    and image: "container_image img (mf_resources m) ns ds h es tbl"
    and n: "length ns = length (mf_resources m)" and small: "metadata_size (mf_resources m) < 2 ^ 32"
    by metis
  show ?thesis using run image_metadata [OF image n assms(2) sz small] by simp
qed

lemma sample_compiles:
  "compiles sample_files sample_manifest [''logo'', ''logo'', ''cfg''] [[1, 2, 3], [], [1, 2, 3]]"
  using sample_named sample_readable sample_fits by (simp add: compiles_def)

theorem erf_roundtrip_resources_witness:
  "\<exists>c. compiled_and_opened sample_files sample_manifest = Some c
    \<and> erf_verify_checksum (Some c) = Some True
    \<and> unat (erf_resource_count (Some c)) = length (mf_resources sample_manifest)
    \<and> (\<forall>i < length (mf_resources sample_manifest).
         resource_agrees (c_base c) (mf_resources sample_manifest ! i) ([''logo'', ''logo'', ''cfg''] ! i)
           ([[1, 2, 3], [], [1, 2, 3]] ! i) (c_resources c ! i))"
  by (rule erf_roundtrip_resources [OF sample_compiles])

theorem erf_roundtrip_find_witness:
  "\<exists>c. compiled_and_opened sample_files sample_manifest = Some c
    \<and> erf_find_in (Some c) (Some ''cfg'') ERF_OK
        = Some (found (map_option (\<lambda>i. c_resources c ! i) (first_index ''cfg'' [''logo'', ''logo'', ''cfg''])))
    \<and> erf_find_id_in (Some c) 2 ERF_OK
        = found (map_option (\<lambda>i. c_resources c ! i)
            (first_index 2 (map r_final_id (mf_resources sample_manifest))))"
  by (rule erf_roundtrip_find [OF sample_compiles]) simp

theorem erf_roundtrip_metadata_witness:
  "\<exists>c. compiled_and_opened sample_files sample_manifest = Some c
    \<and> erf_metadata_count (Some c) (Some (c_resources c ! 0))
        = Some (int (length (r_metadata (mf_resources sample_manifest ! 0))))
    \<and> (\<forall>k < length (r_metadata (mf_resources sample_manifest ! 0)). \<exists>key val.
        erf_metadata_get (Some c) (Some (c_resources c ! 0)) (int k) = Some (0, Some (key, val))
        \<and> reads_cstr (c_base c) (unat key) (m_key (r_metadata (mf_resources sample_manifest ! 0) ! k))
        \<and> reads_cstr (c_base c) (unat val) (m_value (r_metadata (mf_resources sample_manifest ! 0) ! k)))"
  by (rule erf_roundtrip_metadata [OF sample_compiles]) (simp add: sample_manifest_def)

end
