(* ===== verification/Dump_Roundtrip.thy ===== *)
theory Dump_Roundtrip
  imports Elfresdump Elf_Layout Erf_Roundtrip
begin

text \<open>
  The dump tool on the object files of the compiler: it finds the \<open>.resource\<close> section by its name
  and lists and extracts exactly what the manifest described.
\<close>

section \<open>More memory behind a container changes nothing\<close>

text \<open>
  The container the tool opens lies inside the mapped file, with other sections behind it. Every
  read that is defined in a memory is defined, with the same result, in a longer one.
\<close>

named_theorems extends \<open>operations on a memory carry over to a longer one\<close>

lemma open_hash_table_append [extends]:
  "open_hash_table m h = Some r \<Longrightarrow> open_hash_table (m @ x) h = Some r"
  by (auto simp: open_hash_table_def bind_eq_Some_conv Let_def dest: mem_read_append split: if_splits)

lemma read_entry_append [extends]: "read_entry m h i = Some e \<Longrightarrow> read_entry (m @ x) h i = Some e"
  by (auto simp: read_entry_def bind_eq_Some_conv Let_def dest: mem_read_append)

lemma open_resources_append [extends]:
  "open_resources m h i k = Some r \<Longrightarrow> open_resources (m @ x) h i k = Some r"
proof (induction k arbitrary: i r)
  case (Suc k)
  then obtain e where e: "read_entry m h i = Some e" by (auto simp: bind_eq_Some_conv)
  show ?case using Suc read_entry_append [OF e, of x] e
    by (auto simp: bind_eq_Some_conv split: if_splits)
qed simp

lemma strcmp_eq_append [extends]: "strcmp_eq m off s = Some r \<Longrightarrow> strcmp_eq (m @ x) off s = Some r"
  by (induction m off s rule: strcmp_eq.induct) (auto simp: nth_append split: if_splits)

lemma erf_open_memory_append:
  assumes "erf_open_memory (Some m) sz e = Some (c, e')"
  shows "erf_open_memory (Some (m @ x)) sz e = Some (map_option (\<lambda>c. c\<lparr>c_base := m @ x\<rparr>) c, e')"
proof (cases "unat sz < sizeof_ERFHeader")
  case True
  then show ?thesis using assms by (auto simp: erf_open_memory_def)
next
  case False
  then obtain bytes where b: "mem_read m 0 sizeof_ERFHeader = Some bytes"
    using assms by (auto simp: erf_open_memory_def bind_eq_Some_conv)
  note b' = mem_read_append [OF b, of x]
  let ?h = "get_header bytes"
  show ?thesis
  proof (cases "header_error ?h sz")
    case (Some err)
    then show ?thesis using assms False b b' by (auto simp: erf_open_memory_def Let_def)
  next
    case None
    let ?hash = "\<lambda>m. if header_has_hash ?h then open_hash_table m ?h else Some (Some (0, 0))"
    obtain hash where hash: "?hash m = Some hash"
      using assms False b None by (auto simp: erf_open_memory_def Let_def bind_eq_Some_conv split: if_splits)
    then have hash': "?hash (m @ x) = Some hash" by (auto dest: open_hash_table_append)
    show ?thesis
    proof (cases hash)
      case None
      then show ?thesis using assms False b b' hash hash' \<open>header_error ?h sz = None\<close>
        by (simp add: erf_open_memory_def Let_def)
    next
      case (Some bh)
      obtain bc bo where bh: "bh = (bc, bo)" by (cases bh)
      obtain rs where rs: "open_resources m ?h 0 (unat (h_resource_count ?h)) = Some rs"
        using assms False b None hash Some bh by (auto simp: erf_open_memory_def Let_def bind_eq_Some_conv)
      note rs' = open_resources_append [OF rs, of x]
      show ?thesis
        using assms False b b' None hash hash' Some bh rs rs'
        by (cases rs) (auto simp: erf_open_memory_def Let_def)
    qed
  qed
qed

abbreviation longer :: "memory \<Rightarrow> ERFContainer \<Rightarrow> ERFContainer" where
  "longer x c \<equiv> c\<lparr>c_base := c_base c @ x\<rparr>"

lemma name_matches_longer [extends]: "name_matches c r q = Some b \<Longrightarrow> name_matches (longer x c) r q = Some b"
  by (simp add: name_matches_def strcmp_eq_append)

lemma find_probe_longer [extends]:
  "find_probe k c q h slot = Some r \<Longrightarrow> find_probe k (longer x c) q h slot = Some r"
proof (induction k arbitrary: slot)
  case (Suc k)
  then obtain bytes where b: "mem_read (c_base c) (unat (c_hash_buckets c) + sizeof_ERFHashBucket * unat slot)
      sizeof_ERFHashBucket = Some bytes" by (auto simp: bind_eq_Some_conv)
  note b' = mem_read_append [OF b, of x]
  let ?b = "get_bucket bytes" and ?next = "(slot + 1) mod c_hash_bucket_count c"
  let ?r = "c_resources c ! unat (b_directory_index (get_bucket bytes))"
  let ?here = "b_hash ?b = h \<and> b_directory_index ?b < c_resource_count c"
  show ?case
  proof (cases "b_directory_index ?b = ERF_HASH_EMPTY")
    case True
    then show ?thesis using Suc.prems b b' by (simp add: Let_def)
  next
    case False
    obtain hit where hit: "(if ?here then name_matches c ?r q else Some False) = Some hit"
      using Suc.prems b False by (auto simp: Let_def bind_eq_Some_conv)
    then have hit': "(if ?here then name_matches (longer x c) ?r q else Some False) = Some hit"
      using name_matches_longer by (auto split: if_splits)
    have "find_probe (Suc k) c q h slot = (if hit then Some (Some ?r) else find_probe k c q h ?next)"
      using b False hit by (simp add: Let_def)
    moreover have "find_probe (Suc k) (longer x c) q h slot
        = (if hit then Some (Some ?r) else find_probe k (longer x c) q h ?next)"
      using b' False hit' by (cases ?here) (auto simp: Let_def)
    ultimately show ?thesis using Suc.prems Suc.IH [of ?next] by (simp split: if_splits)
  qed
qed simp

lemma find_linear_longer [extends]: "find_linear c q rs = Some r \<Longrightarrow> find_linear (longer x c) q rs = Some r"
proof (induction rs)
  case (Cons a rs)
  then obtain b where "name_matches c a q = Some b" by (auto simp: bind_eq_Some_conv)
  then show ?case using Cons name_matches_longer [of c a q b x] by (auto split: if_splits)
qed simp

lemma erf_find_in_longer [extends]:
  "erf_find_in (Some c) (Some q) e = Some r \<Longrightarrow> erf_find_in (Some (longer x c)) (Some q) e = Some r"
  by (auto simp: erf_find_in_def Let_def dest: find_probe_longer find_linear_longer split: if_splits)

lemma read_string_append [extends]: "read_string m off = Some s \<Longrightarrow> read_string (m @ x) off = Some s"
  by (auto simp: read_string_def takeWhile_append1 split: if_splits)

lemma list_rows_longer [extends]: "list_rows c i k = Some s \<Longrightarrow> list_rows (longer x c) i k = Some s"
proof (induction k arbitrary: i s)
  case (Suc k)
  then obtain r n rest where "fst (erf_resource_at (Some c) (of_nat i) ERF_OK) = Some r"
    "read_string (c_base c) (unat (res_name r)) = Some n" "list_rows c (Suc i) k = Some rest"
    "s = resource_row r n @ rest" by (auto simp: bind_eq_Some_conv)
  then show ?case
    using Suc.IH [of "Suc i" rest] read_string_append [of "c_base c" "unat (res_name r)" n x]
    by (simp add: erf_resource_at_def split: if_splits)
qed simp

lemma dump_list_longer [extends]: "dump_list c = Some r \<Longrightarrow> dump_list (longer x c) = Some r"
  by (auto simp: dump_list_def bind_eq_Some_conv erf_resource_count_def dest: list_rows_longer)

lemma dump_extract_longer [extends]:
  assumes "dump_extract outs c q out = Some r"
  shows "dump_extract outs (longer x c) q out = Some r"
proof -
  obtain res e where f: "erf_find_in (Some c) (Some q) ERF_OK = Some (res, e)"
    using assms by (auto simp: dump_extract_def bind_eq_Some_conv)
  note f' = erf_find_in_longer [OF f, of x]
  show ?thesis
    using assms f f' mem_read_append [of "c_base c" _ _ _ x]
    by (auto simp: dump_extract_def bind_eq_Some_conv split: option.splits)
qed

lemma dump_container_append:
  assumes run: "dump_container outs opts path m sz = Some r"
    and opened: "erf_open_memory (Some m) sz ERF_OK = Some (Some c, e)" and base: "c_base c = m"
  shows "dump_container outs opts path (m @ x) sz = Some r"
proof -
  have "c\<lparr>c_base := m @ x\<rparr> = longer x c" using base by simp
  then have "erf_open_memory (Some (m @ x)) sz ERF_OK = Some (Some (longer x c), e)"
    using erf_open_memory_append [OF opened, of x] by simp
  then show ?thesis
    using run opened dump_list_longer [of c r x] dump_extract_longer [of outs c _ _ r x]
    by (auto simp: dump_container_def bind_eq_Some_conv split: option.splits)
qed

section \<open>Finding the section\<close>

lemma elf_image_ehdr:
  assumes "elf_image img data prefix p"
  shows "check_ehdr path img = Some (Inr (object_ehdr (ep_shoff p)))"
proof -
  let ?e = "object_ehdr (ep_shoff p)"
  from assms have r: "mem_read img 0 64 = Some (put_ehdr ?e)" and l: "unat (ep_shoff p) + 320 = length img"
    and b: "64 \<le> unat (ep_shoff p)" "length img < 2 ^ 64" by (simp_all add: elf_image_def)
  have ok: "ehdr_ok ?e" by (simp add: ehdr_ok_def object_ehdr_def ELFMAG_def)
  have magic: "take 4 img = ELFMAG"
  proof -
    have "take 4 (take 64 img) = take 4 (put_ehdr ?e)" using r by (simp add: mem_read_eq_Some)
    then show ?thesis by (simp add: put_ehdr_def object_ehdr_def ELFMAG_def)
  qed
  have "unat (ep_shoff p + 320) = length img"
    using l b unat_add_u64 [of "ep_shoff p" 320] by simp
  then have bound: "\<not> of_nat (length img) < ep_shoff p + 320"
    using unat_of_nat_u64 [OF b(2)] by (simp add: word_less_nat_alt)
  have nz: "ep_shoff p \<noteq> 0" using b(1) by auto
  have sz: "e_shoff ?e + ucast (e_shnum ?e) * ucast (e_shentsize ?e) = ep_shoff p + 320"
    by (simp add: object_ehdr_def sec_defs sizeof_elf)
  have "get_ehdr (put_ehdr ?e) = ?e" using ehdr_codec.dec_enc [OF ok] .
  moreover have "e_ident ?e ! EI_CLASS = ELFCLASS64" "e_ident ?e ! EI_DATA = ELFDATA2LSB" "e_shoff ?e \<noteq> 0"
    "e_shnum ?e \<noteq> 0"
    using nz by (simp_all add: object_ehdr_def elf_constants sec_defs)
  ultimately show ?thesis
    using r magic l b bound sz by (simp add: check_ehdr_def sizeof_Elf64_Ehdr_def)
qed

lemma elf_image_shdr:
  assumes "elf_image img data prefix p" and "i < 5"
  shows "read_shdr img (ep_shoff p) i = Some (object_shdrs p (of_nat (length data)) prefix ! i)"
proof -
  let ?s = "object_shdrs p (of_nat (length data)) prefix"
  have len: "length ?s = 5" by (simp add: object_shdrs_def)
  have "mem_read img (unat (ep_shoff p)) (sizeof_Elf64_Shdr * length ?s) = Some (shdr_codec.enc_array ?s)"
    using assms(1) len by (simp add: elf_image_def sizeof_elf shdr_codec.enc_array_def)
  from shdr_codec.mem_read_array [OF _ _ this, of i] assms(2) len show ?thesis
    using shdr_codec.dec_enc by (simp add: read_shdr_def)
qed

lemma reads_cstr_inside:
  assumes "reads_cstr tab off s" and "mem_read img base (length tab) = Some tab"
  shows "reads_cstr img (base + off) s"
proof -
  have "off + Suc (length s) \<le> length tab" using assms(1) by (rule reads_cstr_bound)
  from mem_read_part [OF assms(2) this] assms(1) show ?thesis
    by (simp add: reads_cstr_def mem_read_eq_Some)
qed

lemma elf_image_finds:
  assumes image: "elf_image img data prefix p"
  shows "find_resource_section img (object_ehdr (ep_shoff p))
    = Some (Some (resource_shdr (ep_names p ! 0) (ep_resource p) (of_nat (length data))))"
proof -
  let ?s = "object_shdrs p (of_nat (length data)) prefix" and ?tab = "0 # strings_bytes section_names"
  let ?name = "ep_names p ! 0" and ?base = "unat (ep_shstrtab p)"
  have "\<forall>i < 4. reads_cstr ?tab (unat (ep_names p ! i)) (section_names ! i)"
    using image unfolding elf_image_def by (elim conjE)
  then have "reads_cstr ?tab (unat ?name) (section_names ! 0)" by simp
  then have n: "reads_cstr ?tab (unat ?name) ''.resource''" by (simp add: section_names_def)
  have "mem_read img ?base (Suc (names_size section_names)) = Some ?tab"
    using image unfolding elf_image_def by (elim conjE)
  then have t: "mem_read img ?base (length ?tab) = Some ?tab" by (simp only: length_strings_bytes list.size add_Suc_right add_0_right)
  have "unat ?name + 10 \<le> length ?tab" using reads_cstr_bound [OF n] by simp
  then have "unat ?name < 2 ^ 32" by (simp add: length_strings_bytes section_names_def)
  then have u: "unat (ucast ?name :: u32) = unat ?name" by (rule unat_ucast_u64_u32)
  have hit: "strcmp_eq img (?base + unat ?name) (bytes_of ''.resource'') = Some True"
    using strcmp_eq_reads_cstr [OF reads_cstr_inside [OF n t], of "''.resource''"] by simp
  have "reads_cstr ?tab 0 []" by (simp add: reads_cstr_def mem_read_def cstr_def bytes_of_def)
  then have "reads_cstr img (?base + 0) []" using t by (rule reads_cstr_inside)
  then have miss: "strcmp_eq img ?base (bytes_of ''.resource'') = Some False"
    using strcmp_eq_reads_cstr [of img ?base "[]" "''.resource''"] by simp
  have s: "?s ! 0 = null_shdr" "?s ! 1 = resource_shdr ?name (ep_resource p) (of_nat (length data))"
    "sh_offset (?s ! 4) = ep_shstrtab p"
    by (simp_all add: object_shdrs_def strtab_shdr_def null_shdr_def)
  have sel: "sh_name null_shdr = 0" "sh_name (resource_shdr ?name off sz) = ucast ?name" for off sz
    by (simp_all add: resource_shdr_def null_shdr_def)
  have e: "unat (e_shstrndx (object_ehdr (ep_shoff p))) = 4" "unat (e_shnum (object_ehdr (ep_shoff p))) = Suc (Suc 3)"
    "e_shoff (object_ehdr (ep_shoff p)) = ep_shoff p"
    by (simp_all add: object_ehdr_def sec_defs)
  have run: "find_section img (ep_shoff p) (ep_shstrtab p) 0 (Suc (Suc k))
      = Some (Some (resource_shdr ?name (ep_resource p) (of_nat (length data))))" for k
    using elf_image_shdr [OF image, of 0] elf_image_shdr [OF image, of 1] s(1,2) sel hit miss u by simp
  have "find_resource_section img (object_ehdr (ep_shoff p))
      = find_section img (ep_shoff p) (ep_shstrtab p) 0 (unat (e_shnum (object_ehdr (ep_shoff p))))"
    using elf_image_shdr [OF image, of 4] s(3) e(1,3) by (simp add: find_resource_section_def)
  then show ?thesis by (simp only: e(2) run)
qed

section \<open>Listing and extracting a compiled container\<close>

definition manifest_row :: "elfrc_resource \<Rightarrow> string \<Rightarrow> u8 list \<Rightarrow> string" where
  "manifest_row r n d = format_row (decimal (unat (r_final_id r))) n (type_name (r_type r))
     (decimal (unat (r_language r))) (decimal (length d))"

definition expected_listing :: "elfrc_resource list \<Rightarrow> string list \<Rightarrow> u8 list list \<Rightarrow> dump_result" where
  "expected_listing rs ns ds =
     \<lparr>dr_code = 0, dr_stdout = format_row ''ID'' ''NAME'' ''TYPE'' ''LANG'' ''SIZE''
        @ concat (map (\<lambda>i. manifest_row (rs ! i) (ns ! i) (ds ! i)) [0..<length rs]),
      dr_stderr = [], dr_written = None\<rparr>"

definition expected_extract ::
    "output_files \<Rightarrow> string \<Rightarrow> string \<Rightarrow> string list \<Rightarrow> u8 list list \<Rightarrow> dump_result" where
  "expected_extract outs out q ns ds =
     (case first_index q ns of
        None \<Rightarrow> dump_fails [ResourceNotFound q]
      | Some i \<Rightarrow> (case outs out of
          None \<Rightarrow> dump_fails [FailedToWrite out]
        | Some room \<Rightarrow>
            if room < length (ds ! i)
            then (dump_fails [FailedToWrite out])\<lparr>dr_written := Some (out, take room (ds ! i))\<rparr>
            else \<lparr>dr_code = 0, dr_stdout = [], dr_stderr = [], dr_written = Some (out, ds ! i)\<rparr>))"

lemma read_string_reads_cstr:
  assumes "reads_cstr m off n" and "no_nul n"
  shows "read_string m off = Some n"
proof -
  have "take (Suc (length n)) (drop off m) = cstr n" using assms(1) by (simp add: reads_cstr_def mem_read_eq_Some)
  then obtain rest where rest: "drop off m = bytes_of n @ 0 # rest"
    by (metis append.assoc append_Cons append_Nil append_take_drop_id cstr_def)
  have "takeWhile (\<lambda>b. b \<noteq> 0) (bytes_of n @ 0 # rest) = bytes_of n"
    using no_nul_bytes [OF assms(2)] by (subst takeWhile_append2) auto
  moreover have "map (\<lambda>b. char_of (unat b)) (bytes_of n) = n"
    by (induction n) (simp_all add: bytes_of_def chr_code_def)
  ultimately show ?thesis by (simp add: read_string_def rest)
qed

lemma list_rows_spec:
  assumes "\<And>j. i \<le> j \<Longrightarrow> j < i + k \<Longrightarrow> fst (erf_resource_at (Some c) (of_nat j) ERF_OK) = Some (f j)"
    and "\<And>j. i \<le> j \<Longrightarrow> j < i + k \<Longrightarrow> read_string (c_base c) (unat (res_name (f j))) = Some (g j)"
  shows "list_rows c i k = Some (concat (map (\<lambda>j. resource_row (f j) (g j)) [i..<i + k]))"
  using assms
proof (induction k arbitrary: i)
  case (Suc k)
  have "list_rows c (Suc i) k = Some (concat (map (\<lambda>j. resource_row (f j) (g j)) [Suc i..<Suc i + k]))"
    using Suc.prems by (intro Suc.IH) simp_all
  moreover have "[i..<i + Suc k] = i # [Suc i..<Suc i + k]" by (simp add: upt_conv_Cons)
  ultimately show ?case using Suc.prems(1) [of i] Suc.prems(2) [of i] by simp
qed simp

lemma dump_list_image:
  assumes image: "container_image img rs ns ds h es tbl" and n: "length ns = length rs"
    and nul: "\<forall>n\<in>set ns. no_nul n"
  shows "dump_list (opened img sz) = Some (expected_listing rs ns ds)"
proof -
  let ?c = "opened img sz"
  have count: "unat (h_resource_count (header_of img)) = length rs"
    using image_header [OF image] image_count(2) [OF image n] image_header_of [OF image]
    by (simp add: header_describes_def)
  then have cc: "unat (c_resource_count ?c) = length rs" by (simp add: opened_def Let_def)
  have agrees: "resource_agrees img (rs ! j) (ns ! j) (ds ! j) (c_resources ?c ! j)" if "j < length rs" for j
    using image_resource [OF image n that] .
  have small: "j < 2 ^ 32" if "j < length rs" for j using that image_count(1) [OF image n] by simp
  have at: "fst (erf_resource_at (Some ?c) (of_nat j) ERF_OK) = Some (c_resources ?c ! j)" if "j < length rs" for j
    using that cc unat_of_nat_u32 [OF small [OF that]] by (auto simp: erf_resource_at_def word_le_nat_alt)
  have name: "read_string (c_base ?c) (unat (res_name (c_resources ?c ! j))) = Some (ns ! j)" if "j < length rs" for j
    using agrees [OF that] nul n that
    by (intro read_string_reads_cstr) (simp_all add: resource_agrees_def reads_cstr_def opened_def Let_def)
  have "list_rows ?c 0 (length rs) = Some (concat (map (\<lambda>j. resource_row (c_resources ?c ! j) (ns ! j)) [0..<0 + length rs]))"
    using at name list_rows_spec [of 0 "length rs" ?c "\<lambda>j. c_resources ?c ! j" "\<lambda>j. ns ! j"] by simp
  also have "map (\<lambda>j. resource_row (c_resources ?c ! j) (ns ! j)) [0..<0 + length rs]
      = map (\<lambda>i. manifest_row (rs ! i) (ns ! i) (ds ! i)) [0..<length rs]"
    using agrees by (auto simp: resource_row_def manifest_row_def resource_agrees_def)
  finally have rows: "list_rows ?c 0 (length rs)
      = Some (concat (map (\<lambda>i. manifest_row (rs ! i) (ns ! i) (ds ! i)) [0..<length rs]))" .
  have "unat (erf_resource_count (Some ?c)) = length rs" using cc by (simp add: erf_resource_count_def)
  then show ?thesis by (simp add: dump_list_def rows expected_listing_def)
qed

lemma dump_extract_image:
  assumes image: "container_image img rs ns ds h es tbl" and n: "length ns = length rs"
    and nul: "\<forall>n\<in>set ns. no_nul n" and q: "no_nul q"
  shows "dump_extract outs (opened img sz) q out = Some (expected_extract outs out q ns ds)"
proof (cases "first_index q ns")
  case None
  then show ?thesis using image_find [OF image n nul q]
    by (simp add: dump_extract_def expected_extract_def found_def)
next
  case (Some i)
  then have i: "i < length rs" using n by (simp add: first_index_Some)
  let ?c = "opened img sz"
  have a: "resource_agrees img (rs ! i) (ns ! i) (ds ! i) (c_resources ?c ! i)"
    using image_resource [OF image n i] .
  have base: "c_base ?c = img" by (simp add: opened_def Let_def)
  show ?thesis
    using image_find [OF image n nul q, of sz ERF_OK] Some a base
    by (auto simp: dump_extract_def expected_extract_def found_def resource_agrees_def min_def split: option.split)
qed

section \<open>Object files of the compiler\<close>

lemma dump_object_file:
  assumes image: "container_image data rs ns ds h es tbl" and n: "length ns = length rs"
    and nul: "\<forall>n\<in>set ns. no_nul n" and elf: "elf_image img data prefix p"
  shows "do_extract opts = None \<Longrightarrow> dump_file outs opts path img = Some (expected_listing rs ns ds)"
    and "do_extract opts = Some q \<Longrightarrow> do_output opts = Some out \<Longrightarrow> no_nul q
      \<Longrightarrow> dump_file outs opts path img = Some (expected_extract outs out q ns ds)"
proof -
  let ?off = "unat (ep_resource p)" and ?sz = "of_nat (length data) :: u64"
  have r: "mem_read img ?off (length data) = Some data"
    using elf unfolding elf_image_def by (elim conjE)
  have small: "length img < 2 ^ 64" using elf unfolding elf_image_def by (elim conjE)
  from r have "?off + length data \<le> length img" by (rule mem_read_bound)
  then have sz: "unat ?sz = length data" using small by (intro unat_of_nat_u64) simp
  have drop: "drop ?off img = data @ drop (?off + length data) img"
    using r by (simp add: mem_read_eq_Some) (metis append_take_drop_id drop_drop add.commute)
  have open1: "erf_open_memory (Some data) ?sz ERF_OK = Some (Some (opened data ?sz), ERF_OK)"
    using erf_open_memory_spec [of ?sz data ERF_OK] image_valid [OF image n] sz by (simp add: verdict_ok)
  have base: "c_base (opened data ?sz) = data" by (simp add: opened_def Let_def)
  have via: "dump_file outs opts path img = dump_container outs opts path (drop ?off img) ?sz"
    using elf_image_ehdr [OF elf, of path] elf_image_finds [OF elf]
    by (simp add: dump_file_def resource_shdr_def)
  have run: "dump_file outs opts path img = Some r" if "dump_container outs opts path data ?sz = Some r" for r
    using dump_container_append [OF that open1 base] drop via by simp
  show "do_extract opts = None \<Longrightarrow> dump_file outs opts path img = Some (expected_listing rs ns ds)"
    by (rule run) (simp add: dump_container_def open1 dump_list_image [OF image n nul])
  show "do_extract opts = Some q \<Longrightarrow> do_output opts = Some out \<Longrightarrow> no_nul q
      \<Longrightarrow> dump_file outs opts path img = Some (expected_extract outs out q ns ds)"
    by (rule run) (simp add: dump_container_def open1 dump_extract_image [OF image n nul])
qed

text \<open>What the compiler back end writes for a manifest that compiles.\<close>

lemma compiled_object:
  assumes "compiles fs m ns ds" and "data_size ds \<le> 2 ^ 60"
  obtains c h es tbl img p where "elfrc_container_build fs m = Some (Inr c)"
    "container_image (ec_data c) (mf_resources m) ns ds h es tbl" "unat (ec_size c) = length (ec_data c)"
    "elf_object c prefix = Some img" "elf_image img (ec_data c) prefix p"
    "length ns = length (mf_resources m)" "\<forall>n\<in>set ns. no_nul n"
proof -
  from assms(1) have nm: "named (mf_resources m) ns"
    and rd: "map (file_bytes fs) (mf_resources m) = map Some ds"
    and fits: "container_fits (mf_resources m) ns ds" and nul: "\<forall>n\<in>set ns. no_nul n"
    by (simp_all add: compiles_def list_all_iff)
  from build_image [OF nm rd fits] obtain c h es tbl where
    c: "elfrc_container_build fs m = Some (Inr c)"
    "container_image (ec_data c) (mf_resources m) ns ds h es tbl"
    "unat (ec_size c) = length (ec_data c)"
    "length (ec_data c) \<le> index_size (mf_resources m) ns + data_size ds" .
  have "length (ec_data c) \<le> 2 ^ 61"
    using c(4) fits assms(2) by (simp add: container_fits_def)
  from elf_object_image [OF c(3) this] obtain img p where
    "elf_object c prefix = Some img" "elf_image img (ec_data c) prefix p" by blast
  then show thesis using that c(1,2,3) named_length [OF nm] nul by blast
qed

lemma dump_args_extract:
  "dump_args \<lparr>do_extract = None, do_output = None\<rparr> [''--extract'', q, ''-o'', out]
    = Inr \<lparr>do_extract = Some q, do_output = Some out\<rparr>"
  by simp

lemma dump_main_object:
  assumes image: "container_image data rs ns ds h es tbl" and n: "length ns = length rs"
    and nul: "\<forall>n\<in>set ns. no_nul n" and elf: "elf_image img data prefix p" and "files path = Mapped img"
  shows "elfresdump_main files outs [path] = Some (expected_listing rs ns ds)"
    and "no_nul q \<Longrightarrow> elfresdump_main files outs [path, ''--extract'', q, ''-o'', out]
        = Some (expected_extract outs out q ns ds)"
proof -
  let ?none = "\<lparr>do_extract = None, do_output = None\<rparr>"
  let ?both = "\<lparr>do_extract = Some q, do_output = Some out\<rparr>"
  have "elfresdump_main files outs [path] = dump_file outs ?none path img"
    using assms(5) by (simp add: elfresdump_main_def)
  then show "elfresdump_main files outs [path] = Some (expected_listing rs ns ds)"
    using dump_object_file(1) [OF image n nul elf, of ?none outs path] by simp
  have "elfresdump_main files outs [path, ''--extract'', q, ''-o'', out] = dump_file outs ?both path img"
    using assms(5) dump_args_extract [of q out] by (simp add: elfresdump_main_def)
  then show "no_nul q \<Longrightarrow> elfresdump_main files outs [path, ''--extract'', q, ''-o'', out]
        = Some (expected_extract outs out q ns ds)"
    using dump_object_file(2) [OF image n nul elf, of ?both q out outs path] by simp
qed


lemma write_whole_object:
  assumes "elf_object c prefix = Some img" and "elf_image img data prefix p" and "outs path = Some room"
    and "2 ^ 64 \<le> room"
  shows "elfrc_write_elf_object outs c prefix path = Some (None, Some img)"
proof -
  have "length img < 2 ^ 64" using assms(2) unfolding elf_image_def by (elim conjE)
  then have "take room img = img" using assms(4) by simp
  then show ?thesis using assms(1,3) by (simp add: elfrc_write_elf_object_def)
qed


end
