(* ===== verification/Manifest_Correct.thy ===== *)
theory Manifest_Correct
  imports Manifest_Parse
begin

text \<open>
  What a parsed manifest guarantees: the invariant of its resources, the ids, the distinct names,
  and the form of every error message.
\<close>

section \<open>Errors\<close>

lemma set_error_cases:
  assumes "set_error ctx line msg = Some ctx'"
  shows "pc_failed ctx'" "pc_doc ctx' = pc_doc ctx" "pc_manifest_path ctx' = pc_manifest_path ctx"
    "pc_manifest_dir ctx' = pc_manifest_dir ctx"
    "pc_failed ctx \<Longrightarrow> ctx' = ctx"
  using assms by (auto simp: set_error_def Let_def bind_eq_Some_conv split: if_splits)

text \<open>An operation extends a context: it only ever records the first error.\<close>

definition message_ok :: "string \<Rightarrow> string \<Rightarrow> bool" where
  "message_ok path msg \<longleftrightarrow> (\<exists>rest. msg = snprintf ELFRC_ERRBUF_SIZE (path @ '':'' @ rest))"

definition ctx_extends :: "parse_ctx \<Rightarrow> parse_ctx \<Rightarrow> bool" where
  "ctx_extends ctx ctx' \<longleftrightarrow> (ctx' = ctx
     \<or> \<not> pc_failed ctx \<and> pc_failed ctx' \<and> pc_doc ctx' = pc_doc ctx
       \<and> pc_manifest_path ctx' = pc_manifest_path ctx \<and> message_ok (pc_manifest_path ctx) (pc_errbuf ctx'))"

lemma ctx_extends_refl [simp, intro]: "ctx_extends ctx ctx"
  by (simp add: ctx_extends_def)

lemma ctx_extends_trans: "ctx_extends a b \<Longrightarrow> ctx_extends b c \<Longrightarrow> ctx_extends a c"
  by (auto simp: ctx_extends_def)

lemma ctx_extends_failed: "ctx_extends ctx ctx' \<Longrightarrow> \<not> pc_failed ctx' \<Longrightarrow> ctx' = ctx \<and> \<not> pc_failed ctx"
  by (auto simp: ctx_extends_def)

lemma set_error_extends:
  assumes "set_error ctx line msg = Some ctx'"
  shows "ctx_extends ctx ctx'"
proof (cases "pc_failed ctx")
  case True
  then show ?thesis using set_error_cases(5) [OF assms] by simp
next
  case False
  then obtain m where "pc_errbuf ctx' = snprintf ELFRC_ERRBUF_SIZE
      (pc_manifest_path ctx @ '':'' @ (if 0 < line then decimal_int line @ '': error: '' @ snprintf 400 m
        else '' error: '' @ snprintf 400 m))"
    using assms by (cases msg; cases "0 < line") (auto simp: set_error_def Let_def)
  then have "message_ok (pc_manifest_path ctx) (pc_errbuf ctx')" unfolding message_ok_def by blast
  then show ?thesis using False set_error_cases [OF assms] by (simp add: ctx_extends_def)
qed

lemma fail_with_iff [simp]:
  "fail_with ctx line msg x = Some (ctx', y) \<longleftrightarrow> set_error ctx line msg = Some ctx' \<and> y = x"
  by (auto simp: fail_with_def)

section \<open>The invariant of a resource\<close>

text \<open>
  A step on a resource: it extends the context, and unless it fails it keeps name, file, line and
  the final id, leaves the compression at the given code, and keeps the metadata well formed.
\<close>

definition metadata_ok :: "elfrc_metadata_kv list \<Rightarrow> bool" where
  "metadata_ok kvs \<longleftrightarrow> distinct (map m_key kvs) \<and> (\<forall>kv\<in>set kvs. no_nul (m_key kv) \<and> no_nul (m_value kv))"

definition resource_inv :: "elfrc_resource \<Rightarrow> bool" where
  "resource_inv r \<longleftrightarrow> r_compression r = compression_code ERF_COMPRESSION_NONE \<and> metadata_ok (r_metadata r)"

definition step_ok :: "parse_ctx \<Rightarrow> elfrc_resource \<Rightarrow> parse_ctx \<times> elfrc_resource \<Rightarrow> bool" where
  "step_ok ctx r res \<longleftrightarrow> ctx_extends ctx (fst res)
     \<and> r_name (snd res) = r_name r \<and> r_file (snd res) = r_file r \<and> r_final_id (snd res) = r_final_id r
     \<and> (resource_inv r \<longrightarrow> resource_inv (snd res))"

named_theorems step_intros \<open>every operation on a resource is a step\<close>

lemmas step_defs = step_ok_def resource_inv_def set_error_extends bind_eq_Some_conv Let_def

lemma step_ok_fail: "set_error ctx line msg = Some ctx' \<Longrightarrow> step_ok ctx r (ctx', r)"
  by (simp add: step_ok_def set_error_extends)

lemma step_ok_same: "r_name r' = r_name r \<Longrightarrow> r_file r' = r_file r \<Longrightarrow> r_final_id r' = r_final_id r
    \<Longrightarrow> r_compression r' = r_compression r \<Longrightarrow> r_metadata r' = r_metadata r \<Longrightarrow> step_ok ctx r (ctx, r')"
  by (simp add: step_ok_def resource_inv_def)

lemma step_ok_trans:
  "step_ok ctx r (ctx1, r1) \<Longrightarrow> step_ok ctx1 r1 res \<Longrightarrow> step_ok ctx r res"
  by (auto simp: step_ok_def intro: ctx_extends_trans)

lemma parse_metadata_pairs_step:
  "parse_metadata_pairs ctx line pairs r = Some res \<Longrightarrow> step_ok ctx r res"
proof (induction ctx line pairs r rule: parse_metadata_pairs.induct)
  case (1 ctx line r)
  then show ?case by (auto intro: step_ok_same)
next
  case (2 ctx line k v pairs r)
  let ?key = "scalar_dup (node_at (pc_doc ctx) k)" and ?val = "scalar_dup (node_at (pc_doc ctx) v)"
  obtain ctx' r' where res: "res = (ctx', r')" by (cases res)
  show ?case
  proof (cases "\<exists>key val. ?key = Some key \<and> ?val = Some val \<and> \<not> list_ex (\<lambda>kv. m_key kv = key) (r_metadata r)")
    case True
    then obtain key val where kv: "?key = Some key" "?val = Some val"
      "\<not> list_ex (\<lambda>kv. m_key kv = key) (r_metadata r)" by blast
    let ?r = "r\<lparr>r_metadata := r_metadata r @ [\<lparr>m_key = key, m_value = val\<rparr>]\<rparr>"
    have "step_ok ctx ?r res" using "2.IH" [OF refl kv(1,2)] "2.prems" kv by simp
    moreover have "metadata_ok (r_metadata r) \<Longrightarrow> metadata_ok (r_metadata ?r)"
      using kv scalar_dup_no_nul [OF kv(1)] scalar_dup_no_nul [OF kv(2)]
      by (auto simp: metadata_ok_def list_ex_iff)
    then have "step_ok ctx r (ctx, ?r)" by (simp add: step_ok_def resource_inv_def)
    ultimately show ?thesis by (metis step_ok_trans)
  next
    case False
    then obtain msg where "set_error ctx line msg = Some ctx'" "r' = r"
      using "2.prems" res by (auto split: option.splits if_splits)
    then show ?thesis using res step_ok_fail by simp
  qed
qed

lemma parse_metadata_step [step_intros]:
  "parse_metadata ctx n r = Some (ctx', r') \<Longrightarrow> step_ok ctx r (ctx', r')"
  by (auto simp: parse_metadata_def intro: step_ok_same step_ok_fail parse_metadata_pairs_step
      split: option.splits yaml_node.splits)

lemma parse_flag_items_step:
  "parse_flag_items ctx line items r = Some (ctx', r') \<Longrightarrow> step_ok ctx r (ctx', r')"
proof (induction ctx line items r rule: parse_flag_items.induct)
  case (1 ctx line r)
  then show ?case by (auto intro: step_ok_same)
next
  case (2 ctx line item items r)
  let ?b = "Option.bind (scalar_dup (node_at (pc_doc ctx) item)) flag_from_name"
  show ?case
  proof (cases ?b)
    case None
    then show ?thesis using "2.prems" by (auto simp: Let_def intro: step_ok_fail)
  next
    case (Some b)
    have "step_ok ctx (r\<lparr>r_flags := r_flags r OR b\<rparr>) (ctx', r')"
      using "2.IH" [OF refl Some] "2.prems" Some by (simp add: Let_def)
    moreover have "step_ok ctx r (ctx, r\<lparr>r_flags := r_flags r OR b\<rparr>)" by (rule step_ok_same) simp_all
    ultimately show ?thesis by (metis step_ok_trans)
  qed
qed

lemma parse_flags_step [step_intros]:
  "parse_flags ctx n r = Some (ctx', r') \<Longrightarrow> step_ok ctx r (ctx', r')"
  by (auto simp: parse_flags_def Let_def intro: step_ok_same step_ok_fail parse_flag_items_step
      split: option.splits yaml_node.splits)

lemma parse_type_step [step_intros]:
  "parse_type ctx n r = Some (ctx', r') \<Longrightarrow> step_ok ctx r (ctx', r')"
  by (auto simp: parse_type_def step_defs split: option.splits)

lemma parse_id_step [step_intros]:
  "parse_id ctx n r = Some (ctx', r') \<Longrightarrow> step_ok ctx r (ctx', r')"
  by (auto simp: parse_id_def step_defs split: option.splits)

lemma parse_language_step [step_intros]:
  "parse_language defs n r = Some r' \<Longrightarrow> step_ok ctx r (ctx, r')"
  by (auto simp: parse_language_def step_defs)

lemma parse_compression_step [step_intros]:
  "parse_compression ctx rnode defs n r = Some (ctx', r') \<Longrightarrow> step_ok ctx r (ctx', r')"
  by (auto simp: parse_compression_def step_defs split: option.split_asm if_split_asm)

lemma parse_encryption_step [step_intros]:
  "parse_encryption ctx rnode defs n r = Some (ctx', r') \<Longrightarrow> step_ok ctx r (ctx', r')"
  by (auto simp: parse_encryption_def step_defs split: if_split_asm)

lemma parse_fields_step:
  assumes "parse_fields ctx rnode defs r = Some (ctx', r')"
  shows "step_ok ctx r (ctx', r')"
proof -
  obtain c1 r1 c2 r2 r3 c4 r4 c5 r5 c6 r6 n1 n2 n3 n4 n5 n6 n7 where
    "parse_type ctx n1 r = Some (c1, r1)" "parse_id c1 n2 r1 = Some (c2, r2)"
    "parse_language defs n3 r2 = Some r3" "parse_compression c2 rnode defs n4 r3 = Some (c4, r4)"
    "parse_encryption c4 rnode defs n5 r4 = Some (c5, r5)" "parse_metadata c5 n6 r5 = Some (c6, r6)"
    "parse_flags c6 n7 r6 = Some (ctx', r')"
    using assms by (auto simp: parse_fields_def bind_eq_Some_conv Let_def)
  then show ?thesis by (meson step_intros step_ok_trans)
qed

section \<open>The loop over the resources\<close>

text \<open>What the parser has established of every resource when it has not failed.\<close>

definition file_ok :: "(string \<Rightarrow> bool) \<Rightarrow> elfrc_resource \<Rightarrow> bool" where
  "file_ok is_reg r \<longleftrightarrow> (case r_file r of Some f \<Rightarrow> is_reg f | None \<Rightarrow> False)"

definition parsed_ok :: "(string \<Rightarrow> bool) \<Rightarrow> elfrc_resource \<Rightarrow> bool" where
  "parsed_ok is_reg r \<longleftrightarrow> resource_inv r \<and> file_ok is_reg r
     \<and> (case r_name r of Some n \<Rightarrow> no_nul n | None \<Rightarrow> True)"

lemma parsed_ok_final_id [simp]: "parsed_ok is_reg (r\<lparr>r_final_id := i\<rparr>) = parsed_ok is_reg r"
  by (simp add: parsed_ok_def resource_inv_def file_ok_def)

lemma parse_new_resource_step:
  assumes "parse_new_resource is_reg ctx rnode defs = Some (ctx', r')"
  shows "ctx_extends ctx ctx'" "\<not> pc_failed ctx' \<Longrightarrow> parsed_ok is_reg r'"
proof -
  let ?name = "map_get (pc_doc ctx) rnode ''name''" and ?file = "map_get (pc_doc ctx) rnode ''file''"
  let ?r0 = "zero_resource\<lparr>r_line := node_line rnode\<rparr>"
  have "ctx_extends ctx ctx' \<and> (\<not> pc_failed ctx' \<longrightarrow> parsed_ok is_reg r')"
  proof (cases "?name = None \<or> ?file = None")
    case True
    then show ?thesis
      using assms set_error_extends set_error_cases(1)
      by (cases "?name = None") (auto simp: parse_new_resource_def Let_def)
  next
    case False
    then obtain name_n file_n where nf: "?name = Some name_n" "?file = Some file_n" by auto
    let ?r1 = "?r0\<lparr>r_name := scalar_dup ?name\<rparr>"
    obtain file_rel where f: "scalar_dup ?file = Some file_rel"
      using assms nf by (auto simp: parse_new_resource_def Let_def bind_eq_Some_conv split: if_splits)
    let ?r2 = "?r1\<lparr>r_file := Some (resolve_file ctx file_rel)\<rparr>"
    show ?thesis
    proof (cases "is_reg (resolve_file ctx file_rel)")
      case False
      then show ?thesis
        using assms f nf set_error_extends set_error_cases(1)
        by (auto simp: parse_new_resource_def Let_def)
    next
      case True
      then have "parse_fields ctx rnode defs ?r2 = Some (ctx', r')"
        using assms f nf by (simp add: parse_new_resource_def Let_def)
      then have "step_ok ctx ?r2 (ctx', r')" by (rule parse_fields_step)
      moreover have "resource_inv ?r2"
        by (simp add: resource_inv_def zero_resource_def metadata_ok_def)
      ultimately show ?thesis
        using True scalar_dup_no_nul [of ?name]
        by (auto simp: step_ok_def parsed_ok_def file_ok_def split: option.split)
    qed
  qed
  then show "ctx_extends ctx ctx'" "\<not> pc_failed ctx' \<Longrightarrow> parsed_ok is_reg r'" by simp_all
qed

text \<open>A step on the manifest keeps version and module and adds resources that are in order.\<close>

definition manifest_step ::
    "(string \<Rightarrow> bool) \<Rightarrow> parse_ctx \<Rightarrow> elfrc_manifest \<Rightarrow> parse_ctx \<times> elfrc_manifest \<Rightarrow> bool" where
  "manifest_step is_reg ctx m res \<longleftrightarrow> ctx_extends ctx (fst res)
     \<and> mf_version (snd res) = mf_version m \<and> mf_module (snd res) = mf_module m
     \<and> (\<not> pc_failed (fst res) \<longrightarrow> list_all (parsed_ok is_reg) (mf_resources m)
          \<longrightarrow> list_all (parsed_ok is_reg) (mf_resources (snd res)))"

lemma manifest_step_fail:
  "set_error ctx line msg = Some ctx' \<Longrightarrow> manifest_step is_reg ctx m (ctx', m)"
  by (simp add: manifest_step_def set_error_extends)

lemma manifest_step_trans:
  "manifest_step is_reg ctx m (ctx1, m1) \<Longrightarrow> manifest_step is_reg ctx1 m1 res \<Longrightarrow> manifest_step is_reg ctx m res"
  using ctx_extends_failed by (auto simp: manifest_step_def intro: ctx_extends_trans)

lemma parse_resource_step:
  "parse_resource is_reg ctx rnode defs m = Some (ctx', m') \<Longrightarrow> manifest_step is_reg ctx m (ctx', m')"
  using parse_new_resource_step
  by (auto simp: parse_resource_def bind_eq_Some_conv push_resource_def manifest_step_def
      intro: set_error_extends split: yaml_node.splits)

lemma parse_resources_step:
  "parse_resources is_reg ctx items defs m = Some res \<Longrightarrow> manifest_step is_reg ctx m res"
proof (induction is_reg ctx items defs m rule: parse_resources.induct)
  case (1 is_reg ctx defs m)
  then show ?case by (auto simp: manifest_step_def)
next
  case (2 is_reg ctx item items defs m)
  from "2.prems" obtain rnode c1 m1 where r: "node_at (pc_doc ctx) item = Some rnode"
    "parse_resource is_reg ctx rnode defs m = Some (c1, m1)"
    and rest: "(if pc_failed c1 then Some (c1, m1) else parse_resources is_reg c1 items defs m1) = Some res"
    by (auto simp: bind_eq_Some_conv)
  have "manifest_step is_reg ctx m (c1, m1)" using r(2) by (rule parse_resource_step)
  moreover have "manifest_step is_reg c1 m1 res" if "\<not> pc_failed c1"
    using "2.IH" [OF r refl that] rest that by simp
  ultimately show ?case using rest by (auto split: if_splits intro: manifest_step_trans)
qed

section \<open>Assigning ids and comparing names\<close>

definition resource_key :: "elfrc_resource \<Rightarrow> string option \<times> u32" where
  "resource_key r = (r_name r, r_language r)"

definition all_named :: "elfrc_resource list \<Rightarrow> bool" where
  "all_named rs \<longleftrightarrow> list_all (\<lambda>r. r_name r \<noteq> None) rs"

lemma same_resource_in_spec:
  assumes "r_name r \<noteq> None"
  shows "same_resource_in r rest = Some None
    \<longleftrightarrow> all_named rest \<and> resource_key r \<notin> set (map resource_key rest)"
    and "all_named rest \<Longrightarrow> \<exists>hit. same_resource_in r rest = Some hit"
proof -
  obtain n where n: "r_name r = Some n" using assms by auto
  have step: "same_resource_in r (s # rest) = (if resource_key r = resource_key s then Some (Some s)
      else same_resource_in r rest)" if "r_name s \<noteq> None" for s rest
    using n that by (auto simp: resource_key_def)
  have none: "same_resource_in r (s # rest) = None" if "r_name s = None" for s rest
    using n that by simp
  show "same_resource_in r rest = Some None
    \<longleftrightarrow> all_named rest \<and> resource_key r \<notin> set (map resource_key rest)"
  proof (induction rest)
    case (Cons s rest)
    then show ?case using step [of s rest] none [of s rest]
      by (cases "r_name s = None") (auto simp: all_named_def)
  qed (simp add: all_named_def)
  show "all_named rest \<Longrightarrow> \<exists>hit. same_resource_in r rest = Some hit"
  proof (induction rest)
    case (Cons s rest)
    then show ?case using step [of s rest] by (auto simp: all_named_def)
  qed simp
qed

lemma duplicate_resource_None:
  "duplicate_resource rs = Some None \<Longrightarrow> distinct (map resource_key rs) \<and> (length rs \<noteq> 1 \<longrightarrow> all_named rs)"
proof (induction rs)
  case Nil
  then show ?case by (simp add: all_named_def)
next
  case (Cons r rest)
  then have hit: "same_resource_in r rest = Some None" and dup: "duplicate_resource rest = Some None"
    by (auto simp: bind_eq_Some_conv split: option.splits)
  show ?case
  proof (cases rest)
    case Nil
    then show ?thesis by simp
  next
    case (Cons s ss)
    then have "r_name r \<noteq> None" using hit by (auto simp: bind_eq_Some_conv)
    then show ?thesis
      using same_resource_in_spec(1) [of r rest] hit Cons.IH [OF dup] by (simp add: all_named_def)
  qed
qed

lemma duplicate_resource_total:
  "all_named rs \<Longrightarrow> \<exists>hit. duplicate_resource rs = Some hit \<and> (hit = None \<longleftrightarrow> distinct (map resource_key rs))
    \<and> (\<forall>r s. hit = Some (r, s) \<longrightarrow> r_name s \<noteq> None)"
proof (induction rs)
  case Nil
  then show ?case by simp
next
  case (Cons r rest)
  then have n: "r_name r \<noteq> None" "all_named rest" by (simp_all add: all_named_def)
  from same_resource_in_spec(2) [OF n] obtain hit where hit: "same_resource_in r rest = Some hit" by auto
  show ?case
  proof (cases hit)
    case None
    then show ?thesis using hit same_resource_in_spec(1) [OF n(1), of rest] Cons.IH [OF n(2)] by auto
  next
    case (Some s)
    have "r_name s \<noteq> None"
      using hit Some n by (induction rest) (auto simp: all_named_def bind_eq_Some_conv split: if_splits)
    then show ?thesis using hit Some same_resource_in_spec(1) [OF n(1), of rest] n by auto
  qed
qed

text \<open>The manifest with the reference ids.\<close>

definition with_ids :: "elfrc_resource list \<Rightarrow> elfrc_resource list" where
  "with_ids rs = map2 (\<lambda>r i. r\<lparr>r_final_id := i\<rparr>) rs (reference_ids (explicit_ids rs) rs)"

lemma with_ids_fields [simp]:
  "length (with_ids rs) = length rs"
  "map r_final_id (with_ids rs) = reference_ids (explicit_ids rs) rs"
  "map resource_key (with_ids rs) = map resource_key rs"
  "map r_id (with_ids rs) = map r_id rs" "map r_id_explicit (with_ids rs) = map r_id_explicit rs"
proof -
  have l: "length (reference_ids (explicit_ids rs) rs) = length rs" by simp
  show "length (with_ids rs) = length rs" by (simp add: with_ids_def)
  have "map f (map2 (\<lambda>r i. r\<lparr>r_final_id := i\<rparr>) rs is) = map2 (\<lambda>r i. f (r\<lparr>r_final_id := i\<rparr>)) rs is"
    for f :: "elfrc_resource \<Rightarrow> 'a" and "is" by (simp add: case_prod_beta o_def)
  note m = this
  show "map r_final_id (with_ids rs) = reference_ids (explicit_ids rs) rs"
    by (rule nth_equalityI) (simp_all add: with_ids_def)
  show "map resource_key (with_ids rs) = map resource_key rs" "map r_id (with_ids rs) = map r_id rs"
    "map r_id_explicit (with_ids rs) = map r_id_explicit rs"
    by (rule nth_equalityI; simp add: with_ids_def resource_key_def)+
qed

lemma all_named_with_ids [simp]: "all_named (with_ids rs) = all_named rs"
  by (auto simp: all_named_def list_all_length with_ids_def)

lemma assign_ids_with_ids:
  assumes "length rs + 1 < 2 ^ 32"
  shows "assign_ids (sort (explicit_ids rs)) 1 rs = Some (with_ids rs)"
proof -
  have "assign_ids (sort (explicit_ids rs)) (of_nat 1) rs
      = Some (map2 (\<lambda>r i. r\<lparr>r_final_id := i\<rparr>) rs (reference_ids (explicit_ids rs) rs))"
    by (rule assign_ids_reference) (use assms auto_count_total [of rs] in auto)
  then show ?thesis by (simp add: with_ids_def)
qed

lemma assign_and_validate_success:
  assumes "assign_and_validate_ids ctx m = Some (ctx', m')" and "\<not> pc_failed ctx'"
    and "length (mf_resources m) + 1 < 2 ^ 32"
  shows "m' = m\<lparr>mf_resources := with_ids (mf_resources m)\<rparr>" "distinct (explicit_ids (mf_resources m))"
    "distinct (map resource_key (mf_resources m))" "length (mf_resources m) \<noteq> 1 \<Longrightarrow> all_named (mf_resources m)"
    "ctx' = ctx"
proof -
  let ?rs = "mf_resources m"
  have "m' = m\<lparr>mf_resources := with_ids ?rs\<rparr> \<and> distinct (explicit_ids ?rs) \<and> distinct (map resource_key ?rs)
    \<and> (length ?rs \<noteq> 1 \<longrightarrow> all_named ?rs) \<and> ctx' = ctx"
  proof (cases "?rs = []")
    case True
    then show ?thesis
      using assms(1) by (auto simp: assign_and_validate_ids_def with_ids_def explicit_ids_def all_named_def)
  next
    case False
    have d: "adjacent_duplicate (sort (explicit_ids ?rs)) = None"
      using assms(1,2) False set_error_cases(1)
      by (auto simp: assign_and_validate_ids_def Let_def split: option.splits)
    moreover obtain dup where dup: "duplicate_resource (with_ids ?rs) = Some dup"
      using assms(1) False d assign_ids_with_ids [OF assms(3)]
      by (auto simp: assign_and_validate_ids_def Let_def bind_eq_Some_conv)
    moreover have "dup = None"
    proof (rule ccontr)
      assume "dup \<noteq> None"
      then obtain a b where "dup = Some (a, b)" by auto
      then have "set_error ctx (r_line b) (duplicate_msg a b) = Some ctx'"
        using assms(1) False d dup assign_ids_with_ids [OF assms(3)]
        by (auto simp: assign_and_validate_ids_def Let_def)
      then show False using assms(2) set_error_cases(1) by blast
    qed
    moreover have "ctx' = ctx" "m' = m\<lparr>mf_resources := with_ids ?rs\<rparr>"
      using assms(1) False d dup \<open>dup = None\<close> assign_ids_with_ids [OF assms(3)]
      by (auto simp: assign_and_validate_ids_def Let_def)
    moreover have "distinct (explicit_ids ?rs)"
      using d adjacent_duplicate_None [of "sort (explicit_ids ?rs)"] by simp
    ultimately show ?thesis using duplicate_resource_None [of "with_ids ?rs"] by simp
  qed
  then show "m' = m\<lparr>mf_resources := with_ids (mf_resources m)\<rparr>" "distinct (explicit_ids (mf_resources m))"
    "distinct (map resource_key (mf_resources m))" "length (mf_resources m) \<noteq> 1 \<Longrightarrow> all_named (mf_resources m)"
    "ctx' = ctx" by simp_all
qed

lemma assign_and_validate_extends:
  assumes "assign_and_validate_ids ctx m = Some (ctx', m')"
  shows "ctx_extends ctx ctx'"
  using assms set_error_extends
  by (auto simp: assign_and_validate_ids_def Let_def bind_eq_Some_conv split: if_splits option.splits)

lemma assign_ids_length: "assign_ids ids n rs = Some out \<Longrightarrow> length out = length rs"
  by (induction ids n rs arbitrary: out rule: assign_ids.induct)
    (auto simp: bind_eq_Some_conv split: if_splits)

lemma assign_and_validate_length:
  assumes "assign_and_validate_ids ctx m = Some (ctx', m')"
  shows "length (mf_resources m') = length (mf_resources m)"
  using assms assign_ids_length
  by (auto simp: assign_and_validate_ids_def Let_def bind_eq_Some_conv split: if_splits option.splits)

section \<open>The whole parser\<close>

lemma parse_manifest_cases:
  assumes run: "parse_manifest is_reg ctx = Some (ctx', m')"
  obtains (error) line msg where "set_error ctx line msg = Some ctx'"
    | (loop) items defs m where "mf_version m = 1" "mf_resources m = []"
      "parse_resources is_reg ctx items defs m = Some (ctx', m')" "pc_failed ctx'"
    | (ids) items defs m ctx1 m1 where "mf_version m = 1" "mf_resources m = []"
      "parse_resources is_reg ctx items defs m = Some (ctx1, m1)" "\<not> pc_failed ctx1"
      "assign_and_validate_ids ctx1 m1 = Some (ctx', m')"
proof -
  let ?doc = "pc_doc ctx"
  let ?root = "yaml_document_get_root_node ?doc"
  let ?version = "map_get ?doc ?root ''version''" and ?resources = "map_get ?doc ?root ''resources''"
  let ?m = "empty_manifest\<lparr>mf_version := 1, mf_module := scalar_dup (map_get ?doc ?root ''module'')\<rparr>"
  let ?defs = "parse_defaults ?doc (map_get ?doc ?root ''defaults'')"
  show thesis
  proof (cases "(\<exists>l pairs. ?root = Some (YAML_MAPPING_NODE l pairs)) \<and> ?version \<noteq> None
      \<and> parse_uint (scalar_dup ?version) = Some 1 \<and> (\<exists>l items. ?resources = Some (YAML_SEQUENCE_NODE l items))")
    case False
    then have "\<exists>line msg. set_error ctx line msg = Some ctx'"
      using run by (auto simp: parse_manifest_def Let_def split: option.splits yaml_node.splits if_splits)
    then show thesis using error by blast
  next
    case True
    then obtain l items where items: "?resources = Some (YAML_SEQUENCE_NODE l items)" by blast
    obtain ctx1 m1 where loop1: "parse_resources is_reg ctx items ?defs ?m = Some (ctx1, m1)"
      and rest: "(if pc_failed ctx1 then Some (ctx1, m1) else assign_and_validate_ids ctx1 m1) = Some (ctx', m')"
      using run True items by (auto simp: parse_manifest_def Let_def bind_eq_Some_conv)
    show thesis
    proof (cases "pc_failed ctx1")
      case True
      then show thesis using loop [of ?m items ?defs] loop1 rest by (simp add: empty_manifest_def)
    next
      case False
      then show thesis using ids [of ?m items ?defs ctx1 m1] loop1 rest by (simp add: empty_manifest_def)
    qed
  qed
qed

lemma parse_manifest_extends:
  assumes "parse_manifest is_reg ctx = Some (ctx', m')"
  shows "ctx_extends ctx ctx'"
  using assms
proof (cases rule: parse_manifest_cases)
  case (error line msg)
  then show ?thesis by (rule set_error_extends)
next
  case (loop items defs m)
  then show ?thesis using parse_resources_step [OF loop(3)] by (simp add: manifest_step_def)
next
  case (ids items defs m ctx1 m1)
  then have "ctx_extends ctx ctx1" using parse_resources_step [OF ids(3)] by (simp add: manifest_step_def)
  then show ?thesis using assign_and_validate_extends [OF ids(5)] by (rule ctx_extends_trans)
qed

text \<open>The manifest before the ids, when the parser succeeds.\<close>

lemma parse_manifest_success:
  assumes "parse_manifest is_reg ctx = Some (ctx', m')" and "\<not> pc_failed ctx'"
  obtains m where "mf_version m = 1" "list_all (parsed_ok is_reg) (mf_resources m)"
    "assign_and_validate_ids ctx m = Some (ctx, m')" "\<not> pc_failed ctx"
    "length (mf_resources m') = length (mf_resources m)"
  using assms(1)
proof (cases rule: parse_manifest_cases)
  case (error line msg)
  then show ?thesis using set_error_cases(1) assms(2) by blast
next
  case (loop items defs m)
  then show ?thesis using assms(2) by blast
next
  case (ids items defs m ctx1 m1)
  have e: "ctx_extends ctx ctx1" "mf_version m1 = 1" "list_all (parsed_ok is_reg) (mf_resources m1)"
    using parse_resources_step [OF ids(3)] ids(1,2,4) by (auto simp: manifest_step_def)
  then have c: "ctx1 = ctx" "\<not> pc_failed ctx" using ctx_extends_failed ids(4) by blast+
  moreover have "ctx' = ctx"
    using ctx_extends_failed [OF assign_and_validate_extends [OF ids(5)] assms(2)] c by simp
  ultimately show ?thesis
    using that [of m1] e ids(5) assign_and_validate_length [OF ids(5)] by simp
qed

end
