(* ===== verification/Manifest_Properties.thy ===== *)
theory Manifest_Properties
  imports Manifest_Correct
begin

text \<open>
  The properties of the manifest parser, each over the definitions that model
  \<open>src/elfrc/manifest_yaml.c\<close>, with a sample document on which their hypotheses hold.
\<close>

section \<open>Numbers and language tags\<close>

lemma parse_uint_number: "parse_uint (Some (decimal n)) = Some (of_nat (min (2 ^ 63 - 1) n))"
proof -
  define k where "k = min (2 ^ 63 - 1) n"
  have "min LONG_MAX (int n) = int k" by (auto simp: LONG_MAX_def min_def k_def)
  then have "strtol10 (decimal n) = (int k, [])" by (simp only: strtol10_decimal)
  then have "parse_uint (Some (decimal n)) = Some (of_nat k)" by (simp add: parse_uint_def)
  then show ?thesis by (simp only: k_def)
qed

lemma parse_uint_word: "parse_uint (Some (decimal (unat (w :: u32)))) = Some w"
proof -
  have "min (2 ^ 63 - 1) (unat w) = unat w" using unat_u32_bound [of w] by simp
  then show ?thesis by (simp add: parse_uint_number)
qed

text \<open>
  C33. \<open>parse_uint\<close> reads back every decimal number up to the range of \<open>long\<close>, but keeps only its
  low 32 bits: numbers below \<open>2 ^ 32\<close> are exact, 4294967296 reads as 0 and 4294967297 as 1.
\<close>

theorem parse_uint_decimal:
  "parse_uint (Some (decimal n)) = Some (of_nat (min (2 ^ 63 - 1) n))
    \<and> unat (of_nat (min (2 ^ 63 - 1) n) :: u32) = min (2 ^ 63 - 1) n mod 2 ^ 32"
  using parse_uint_number [of n] by (simp add: unat_of_nat)

text \<open>
  C32. Language ids do not depend on the case of the tag, and the neutral id 0 is given to exactly
  the absent tag, the empty tag and \<open>neutral\<close>: no other tag collides with it.
\<close>

theorem language_from_tag_correct:
  "language_from_tag (Some (map tolower t)) = language_from_tag (Some t)
    \<and> (language_from_tag tag = ERF_LANGUAGE_NEUTRAL
        \<longleftrightarrow> tag = None \<or> tag = Some [] \<or> (\<exists>s. tag = Some s \<and> strcasecmp_eq s ''neutral''))"
proof -
  have codes: "table_get language_tags s = Some i \<Longrightarrow> i \<noteq> 0" for s i
    by (auto simp: language_tags_def split: if_splits)
  have low: "map tolower (take n (map tolower t)) = map tolower (take n t)" for n
    by (simp add: take_map)
  have "language_from_tag (Some (map tolower t)) = language_from_tag (Some t)"
    by (cases "table_get language_tags t") (simp_all add: language_from_tag_def Let_def low table_get_lower)
  moreover have "language_from_tag tag = ERF_LANGUAGE_NEUTRAL
      \<longleftrightarrow> tag = None \<or> tag = Some [] \<or> (\<exists>s. tag = Some s \<and> strcasecmp_eq s ''neutral'')"
    using codes by (cases tag) (auto simp: language_from_tag_def ERF_LANGUAGE_NEUTRAL_def Let_def split: option.split)
  ultimately show ?thesis ..
qed

section \<open>Assigned ids\<close>

lemma assign_and_validate_spec:
  assumes "\<not> pc_failed ctx" and "all_named (mf_resources m)" and "length (mf_resources m) + 1 < 2 ^ 32"
  shows "\<exists>ctx' m'. assign_and_validate_ids ctx m = Some (ctx', m')
    \<and> (pc_failed ctx' \<longleftrightarrow> \<not> (distinct (explicit_ids (mf_resources m))
          \<and> distinct (map resource_key (mf_resources m))))
    \<and> (\<not> pc_failed ctx' \<longrightarrow> ctx' = ctx \<and> m' = m\<lparr>mf_resources := with_ids (mf_resources m)\<rparr>
          \<and> distinct (map r_final_id (mf_resources m')))"
proof -
  let ?rs = "mf_resources m" and ?ids = "sort (explicit_ids (mf_resources m))"
  have fail: "\<exists>ctx'. set_error ctx line (Some msg) = Some ctx' \<and> pc_failed ctx'" for line msg
    using assms(1) by (simp add: set_error_def Let_def)
  have adj: "adjacent_duplicate ?ids = None \<longleftrightarrow> distinct (explicit_ids ?rs)"
    using adjacent_duplicate_None [of ?ids] by simp
  have dist: "distinct (map r_final_id (with_ids ?rs))" if "distinct (explicit_ids ?rs)"
    using reference_ids_distinct [of "explicit_ids ?rs" ?rs] that assms(3) auto_count_total [of ?rs] by simp
  from duplicate_resource_total [of "with_ids ?rs"] assms(2) obtain dup where
    dup: "duplicate_resource (with_ids ?rs) = Some dup" "dup = None \<longleftrightarrow> distinct (map resource_key ?rs)"
    "\<forall>r s. dup = Some (r, s) \<longrightarrow> r_name s \<noteq> None" by auto
  consider "?rs = []" | "?rs \<noteq> []" "\<not> distinct (explicit_ids ?rs)"
    | "?rs \<noteq> []" "distinct (explicit_ids ?rs)" "dup = None"
    | r s where "?rs \<noteq> []" "distinct (explicit_ids ?rs)" "dup = Some (r, s)" by (cases dup) auto
  then show ?thesis
  proof cases
    case 1
    then show ?thesis using assms(1) by (simp add: assign_and_validate_ids_def explicit_ids_def with_ids_def)
  next
    case 2
    then obtain i where "adjacent_duplicate ?ids = Some i" using adj by auto
    then show ?thesis
      using 2 fail [of 0 "''duplicate explicit resource id '' @ decimal (unat i)"]
      by (auto simp: assign_and_validate_ids_def fail_with_def Let_def)
  next
    case 3
    then show ?thesis
      using adj dup dist assms(1) assign_ids_with_ids [OF assms(3)]
      by (simp add: assign_and_validate_ids_def Let_def)
  next
    case 4
    then obtain msg where "duplicate_msg r s = Some msg" using dup(3) by (auto simp: duplicate_msg_def)
    moreover have "\<not> distinct (map resource_key ?rs)" using 4 dup(2) by simp
    ultimately show ?thesis
      using 4 adj dup(1) fail [of "r_line s" msg] assign_ids_with_ids [OF assms(3)]
      by (auto simp: assign_and_validate_ids_def fail_with_def Let_def)
  qed
qed

text \<open>
  C7. The id pass is the reference assignment: on named resources it returns (the skipping loop
  ends), it fails exactly when two explicit ids are equal or two resources share name and language,
  and otherwise every resource has its explicit id, or the smallest positive number that no
  explicit id and no earlier resource has.
\<close>

theorem assign_and_validate_ids_reference:
  assumes "\<not> pc_failed ctx" and "all_named (mf_resources m)" and "length (mf_resources m) + 1 < 2 ^ 32"
  shows "\<exists>ctx' m'. assign_and_validate_ids ctx m = Some (ctx', m')
    \<and> (pc_failed ctx' \<longleftrightarrow> \<not> (distinct (explicit_ids (mf_resources m))
          \<and> distinct (map resource_key (mf_resources m))))
    \<and> (\<not> pc_failed ctx' \<longrightarrow> ctx' = ctx \<and> m' = m\<lparr>mf_resources := with_ids (mf_resources m)\<rparr>
          \<and> distinct (map r_final_id (mf_resources m')))"
  using assms by (rule assign_and_validate_spec)

section \<open>Parsed manifests\<close>

definition manifest_wf :: "(string \<Rightarrow> bool) \<Rightarrow> elfrc_manifest \<Rightarrow> bool" where
  "manifest_wf is_reg m \<longleftrightarrow>
     mf_version m = 1 \<and> list_all (parsed_ok is_reg) (mf_resources m)
     \<and> distinct (map r_final_id (mf_resources m)) \<and> distinct (map resource_key (mf_resources m))
     \<and> list_all (\<lambda>r. if r_id_explicit r then r_final_id r = r_id r
          else 0 < unat (r_final_id r) \<and> unat (r_final_id r) \<le> length (mf_resources m)) (mf_resources m)
     \<and> (length (mf_resources m) = 1 \<or> all_named (mf_resources m))"

lemma reference_ids_nth:
  "i < length rs \<Longrightarrow> r_id_explicit (rs ! i) \<Longrightarrow> reference_ids taken rs ! i = r_id (rs ! i)"
proof (induction taken rs arbitrary: i rule: reference_ids.induct)
  case (2 taken r rs)
  then show ?case by (cases i) (simp_all add: Let_def)
qed simp

lemma reference_ids_auto:
  "set (explicit_ids rs) \<subseteq> set taken \<Longrightarrow> length taken + auto_count rs + 1 < 2 ^ 32
    \<Longrightarrow> i < length rs \<Longrightarrow> \<not> r_id_explicit (rs ! i)
    \<Longrightarrow> 0 < unat (reference_ids taken rs ! i) \<and> unat (reference_ids taken rs ! i) \<le> length taken + auto_count rs"
proof (induction taken rs arbitrary: i rule: reference_ids.induct)
  case (2 taken r rs)
  show ?case
  proof (cases "r_id_explicit r")
    case True
    then obtain j where i: "i = Suc j" "j < length rs" using "2.prems" by (cases i) auto
    then show ?thesis using "2.IH"(1) [OF True, of j] "2.prems" True by (simp add: explicit_ids_def)
  next
    case False
    have room: "length taken + 1 < 2 ^ 32" using "2.prems"(2) by simp
    note free = least_free_spec [OF room]
    have uf: "unat (of_nat (least_free taken) :: u32) = least_free taken"
      using free(2) room by (intro unat_of_nat_u32) simp
    show ?thesis
    proof (cases i)
      case 0
      then show ?thesis using False uf free(1,2) by (simp add: Let_def)
    next
      case (Suc j)
      have "set (explicit_ids rs) \<subseteq> set (of_nat (least_free taken) # taken)"
        using "2.prems"(1) False by (auto simp: explicit_ids_def)
      then show ?thesis using "2.IH"(2) [OF False refl, of j] "2.prems" False Suc by (simp add: Let_def)
    qed
  qed
qed simp

lemma parsed_manifest_wf:
  assumes "parse_manifest is_reg ctx = Some (ctx', m')" and "\<not> pc_failed ctx'"
    and small: "length (mf_resources m') + 1 < 2 ^ 32"
  shows "manifest_wf is_reg m'"
proof -
  from assms(1,2) obtain m where v: "mf_version m = 1" and all: "list_all (parsed_ok is_reg) (mf_resources m)"
    and ids: "assign_and_validate_ids ctx m = Some (ctx, m')" "\<not> pc_failed ctx"
    and len: "length (mf_resources m') = length (mf_resources m)" by (rule parse_manifest_success)
  let ?rs = "mf_resources m"
  have small': "length ?rs + 1 < 2 ^ 32" using small len by simp
  note ok = assign_and_validate_success [OF ids small']
  have rs': "mf_resources m' = with_ids ?rs" using ok(1) by simp
  have all': "list_all (parsed_ok is_reg) (with_ids ?rs)"
    using all by (auto simp: list_all_length with_ids_def)
  have "distinct (reference_ids (explicit_ids ?rs) ?rs)"
    using reference_ids_distinct [of "explicit_ids ?rs" ?rs] ok(2) small' auto_count_total [of ?rs] by simp
  moreover have "if r_id_explicit (with_ids ?rs ! i) then r_final_id (with_ids ?rs ! i) = r_id (with_ids ?rs ! i)
      else 0 < unat (r_final_id (with_ids ?rs ! i)) \<and> unat (r_final_id (with_ids ?rs ! i)) \<le> length ?rs"
    if "i < length ?rs" for i
    using reference_ids_nth [OF that] reference_ids_auto [OF order_refl _ that] that small'
      auto_count_total [of ?rs] by (simp add: with_ids_def)
  then have "list_all (\<lambda>r. if r_id_explicit r then r_final_id r = r_id r
      else 0 < unat (r_final_id r) \<and> unat (r_final_id r) \<le> length ?rs) (with_ids ?rs)"
    by (simp add: list_all_length)
  ultimately show ?thesis
    unfolding manifest_wf_def using v ok all' rs' len
    by (auto simp: if_bool_eq_conj)
qed

section \<open>A sample document\<close>

text \<open>
  The nodes of a manifest with three resources: an explicit id, a language, and a list of flags.
\<close>

definition scalar :: "nat \<Rightarrow> string \<Rightarrow> yaml_node" where
  "scalar l s = YAML_SCALAR_NODE l s"

definition sample_document :: yaml_document where
  "sample_document =
     [YAML_MAPPING_NODE 0 [(2, 3), (4, 5), (6, 7)],
      scalar 0 ''version'', scalar 0 ''1'', scalar 1 ''module'', scalar 1 ''ui'',
      scalar 2 ''resources'', YAML_SEQUENCE_NODE 3 [8, 9, 10],
      YAML_MAPPING_NODE 3 [(11, 14), (12, 15), (13, 16), (17, 18)],
      YAML_MAPPING_NODE 6 [(11, 21), (12, 22), (23, 24)],
      YAML_MAPPING_NODE 9 [(11, 21), (12, 25), (26, 27)],
      scalar 3 ''name'', scalar 4 ''file'', scalar 5 ''id'',
      scalar 3 ''logo'', scalar 4 ''logo.png'', scalar 5 ''2'',
      scalar 5 ''metadata'', YAML_MAPPING_NODE 5 [(19, 20)], scalar 5 ''author'', scalar 5 ''me'',
      scalar 6 ''text'', scalar 7 ''/t.txt'', scalar 8 ''language'', scalar 8 ''DE'',
      scalar 10 ''t.json'', scalar 11 ''flags'', YAML_SEQUENCE_NODE 11 [28, 29],
      scalar 11 ''optional'', scalar 11 ''Read_Only'']"

definition sample_parsed :: elfrc_manifest where
  "sample_parsed = \<lparr>mf_version = 1, mf_module = Some ''ui'', mf_resources =
     [\<lparr>r_name = Some ''logo'', r_file = Some ''res/logo.png'', r_type = 5, r_language = 0,
        r_compression = 0, r_flags = 0, r_id_explicit = True, r_id = 2, r_final_id = 2,
        r_metadata = [\<lparr>m_key = ''author'', m_value = ''me''\<rparr>], r_line = 4\<rparr>,
      \<lparr>r_name = Some ''text'', r_file = Some ''/t.txt'', r_type = 1, r_language = 1031,
        r_compression = 0, r_flags = 0, r_id_explicit = False, r_id = 0, r_final_id = 1,
        r_metadata = [], r_line = 7\<rparr>,
      \<lparr>r_name = Some ''text'', r_file = Some ''res/t.json'', r_type = 2, r_language = 0,
        r_compression = 0, r_flags = 20, r_id_explicit = False, r_id = 0, r_final_id = 3,
        r_metadata = [], r_line = 10\<rparr>]\<rparr>"

lemma sample_document_parses:
  "elfrc_manifest_parse (\<lambda>p. YamlLoaded sample_document) (\<lambda>f. True) ''res/app.yaml'' = Some (Inr sample_parsed)"
  by code_simp

theorem assign_and_validate_ids_reference_witness:
  "\<exists>ctx' m'. assign_and_validate_ids (start_ctx [] ''m'') sample_parsed = Some (ctx', m')
    \<and> pc_failed ctx' = False \<and> map r_final_id (mf_resources m') = [2, 1, 3]"
proof -
  have 1: "\<not> pc_failed (start_ctx [] ''m'')" by (simp add: start_ctx_def)
  have 2: "all_named (mf_resources sample_parsed)" by (simp add: sample_parsed_def all_named_def)
  have 3: "length (mf_resources sample_parsed) + 1 < 2 ^ 32" by (simp add: sample_parsed_def)
  have d: "distinct (explicit_ids (mf_resources sample_parsed))"
    "distinct (map resource_key (mf_resources sample_parsed))"
    by (simp_all add: sample_parsed_def explicit_ids_def resource_key_def)
  have w: "map r_final_id (with_ids (mf_resources sample_parsed)) = [2, 1, 3]"
    unfolding with_ids_fields
    by (simp add: sample_parsed_def explicit_ids_def least_free_def Let_def upt_rec)
  from assign_and_validate_ids_reference [OF 1 2 3] d obtain ctx' m' where
    "assign_and_validate_ids (start_ctx [] ''m'') sample_parsed = Some (ctx', m')" "\<not> pc_failed ctx'"
    "m' = sample_parsed\<lparr>mf_resources := with_ids (mf_resources sample_parsed)\<rparr>" by auto
  then show ?thesis using w by simp
qed

section \<open>The result of the parser\<close>

lemma manifest_parse_success:
  assumes "elfrc_manifest_parse load is_reg path = Some (Inr m)" and "length (mf_resources m) + 1 < 2 ^ 32"
  shows "manifest_wf is_reg m"
proof -
  from assms(1) obtain doc ctx' where "parse_manifest is_reg (start_ctx doc path) = Some (ctx', m)"
    "\<not> pc_failed ctx'"
    by (auto simp: elfrc_manifest_parse_def bind_eq_Some_conv split: yaml_load.splits if_splits)
  then show ?thesis using assms(2) by (rule parsed_manifest_wf)
qed

text \<open>
  C6. A manifest the parser accepts is well formed: it has version 1, every resource names a
  regular file, is stored uncompressed, and has metadata keys without duplicates; the final ids
  are distinct, explicit ids are kept and the others lie between 1 and the number of resources; no
  two resources share name and language; and unless there is a single resource, all have names.
\<close>

theorem elfrc_manifest_parse_wf:
  assumes "elfrc_manifest_parse load is_reg path = Some (Inr m)" and "length (mf_resources m) + 1 < 2 ^ 32"
  shows "manifest_wf is_reg m"
  using assms by (rule manifest_parse_success)

theorem elfrc_manifest_parse_wf_witness:
  "manifest_wf (\<lambda>f. True) sample_parsed"
  by (rule elfrc_manifest_parse_wf [OF sample_document_parses]) (simp add: sample_parsed_def)

text \<open>
  C30. Every error the parser reports fits the caller's buffer of 512 bytes and is the path of the
  manifest, a colon and a message, cut to 511 characters.
\<close>

theorem elfrc_manifest_parse_error:
  assumes "elfrc_manifest_parse load is_reg path = Some (Inl msg)"
  shows "length msg < ELFRC_ERRBUF_SIZE \<and> (\<exists>rest. msg = take 511 (path @ '':'' @ rest))"
proof -
  have form: "\<exists>rest. msg = take 511 (path @ '':'' @ rest)"
  proof (cases "load path")
    case (YamlLoaded doc)
    then obtain ctx' m where run: "parse_manifest is_reg (start_ctx doc path) = Some (ctx', m)"
      and failed: "pc_failed ctx'" and msg: "msg = snprintf ELFRC_ERRBUF_SIZE (pc_errbuf ctx')"
      using assms by (auto simp: elfrc_manifest_parse_def bind_eq_Some_conv split: if_splits)
    have "message_ok path (pc_errbuf ctx')"
      using parse_manifest_extends [OF run] failed by (auto simp: ctx_extends_def start_ctx_def)
    then obtain rest where "pc_errbuf ctx' = take 511 (path @ '':'' @ rest)"
      unfolding message_ok_def snprintf_def ELFRC_ERRBUF_SIZE_def by auto
    then have "msg = take 511 (path @ '':'' @ rest)"
      using msg by (simp only: snprintf_def ELFRC_ERRBUF_SIZE_def take_take) simp
    then show ?thesis by blast
  next
    case (YamlCannotOpen e)
    then have "msg = take 511 (path @ '':'' @ '' error: cannot open manifest: '' @ e)"
      using assms by (simp add: elfrc_manifest_parse_def snprintf_def ELFRC_ERRBUF_SIZE_def)
    then show ?thesis by blast
  next
    case YamlInitFailed
    then have "msg = take 511 (path @ '':'' @ '' error: failed to initialize YAML parser'')"
      using assms by (simp add: elfrc_manifest_parse_def snprintf_def ELFRC_ERRBUF_SIZE_def)
    then show ?thesis by blast
  next
    case (YamlProblem line problem)
    then have "msg = take 511 (path @ '':'' @ decimal (line + 1) @ '': error: YAML parse error: ''
        @ (case problem of Some p \<Rightarrow> p | None \<Rightarrow> ''malformed document''))"
      using assms by (simp add: elfrc_manifest_parse_def snprintf_def ELFRC_ERRBUF_SIZE_def)
    then show ?thesis by blast
  qed
  then show ?thesis by (auto simp: ELFRC_ERRBUF_SIZE_def)
qed

theorem elfrc_manifest_parse_error_witness:
  "length ''m: error: failed to initialize YAML parser'' < ELFRC_ERRBUF_SIZE
    \<and> (\<exists>rest. ''m: error: failed to initialize YAML parser'' = take 511 (''m'' @ '':'' @ rest))"
  by (rule elfrc_manifest_parse_error [where load = "\<lambda>p. YamlInitFailed" and is_reg = "\<lambda>f. True"])
    (simp add: elfrc_manifest_parse_def snprintf_def ELFRC_ERRBUF_SIZE_def)

end
