(* ===== verification/Manifest_Total.thy ===== *)
theory Manifest_Total
  imports Manifest_Properties
begin

text \<open>
  When the manifest parser has a defined result: it does whenever the fields it passes to string
  functions are scalars. A field of another shape reaches them as a \<open>NULL\<close> pointer.
\<close>

section \<open>Documents with scalar fields\<close>

definition scalar_or_absent :: "yaml_node option \<Rightarrow> bool" where
  "scalar_or_absent n \<longleftrightarrow> n = None \<or> scalar_dup n \<noteq> None"

definition scalar_fields :: "yaml_document \<Rightarrow> yaml_node option \<Rightarrow> string list \<Rightarrow> bool" where
  "scalar_fields doc node keys \<longleftrightarrow> list_all (\<lambda>key. scalar_or_absent (map_get doc node key)) keys"

definition resource_fields :: "string list" where
  "resource_fields = [''name'', ''file'', ''type'', ''id'', ''compression'', ''encryption'']"

definition doc_scalars :: "yaml_document \<Rightarrow> bool" where
  "doc_scalars doc \<longleftrightarrow>
     (let root = yaml_document_get_root_node doc in
      scalar_fields doc root [''version'']
      \<and> scalar_fields doc (map_get doc root ''defaults'') [''language'', ''compression'', ''encryption'']
      \<and> (case map_get doc root ''resources'' of
          Some (YAML_SEQUENCE_NODE l items) \<Rightarrow> length items + 1 < 2 ^ 32
            \<and> list_all (\<lambda>i. node_at doc i \<noteq> None \<and> scalar_fields doc (node_at doc i) resource_fields) items
        | _ \<Rightarrow> True))"

section \<open>Every operation returns\<close>

lemma messages_defined [simp]:
  "set_error ctx line msg = None \<longleftrightarrow> \<not> pc_failed ctx \<and> msg = None"
  "fail_with ctx line msg x = None \<longleftrightarrow> \<not> pc_failed ctx \<and> msg = None"
  "resource_msg r m = None \<longleftrightarrow> r_name r = None"
  "resource_msg1 r a s b = None \<longleftrightarrow> r_name r = None \<or> s = None"
  by (auto simp: set_error_def fail_with_def resource_msg_def resource_msg1_def Let_def bind_eq_None_conv)

lemma parse_metadata_pairs_total:
  "r_name r \<noteq> None \<Longrightarrow> parse_metadata_pairs ctx line pairs r \<noteq> None"
proof (induction ctx line pairs r rule: parse_metadata_pairs.induct)
  case (2 ctx line k v pairs r)
  then show ?case by (auto simp del: not_None_eq split: option.split)
qed simp

lemma parse_metadata_total: "r_name r \<noteq> None \<Longrightarrow> parse_metadata ctx n r \<noteq> None"
  using parse_metadata_pairs_total
  by (auto simp: parse_metadata_def simp del: not_None_eq split: option.split yaml_node.split)

lemma parse_flag_items_total: "r_name r \<noteq> None \<Longrightarrow> parse_flag_items ctx line items r \<noteq> None"
proof (induction ctx line items r rule: parse_flag_items.induct)
  case (2 ctx line item items r)
  then show ?case by (auto simp: Let_def simp del: not_None_eq split: option.split)
qed simp

lemma parse_flags_total: "r_name r \<noteq> None \<Longrightarrow> parse_flags ctx n r \<noteq> None"
  using parse_flag_items_total
  by (auto simp: parse_flags_def Let_def simp del: not_None_eq split: option.split yaml_node.split)

lemma parse_type_total:
  "r_name r \<noteq> None \<Longrightarrow> r_file r \<noteq> None \<Longrightarrow> scalar_or_absent n \<Longrightarrow> parse_type ctx n r \<noteq> None"
  by (auto simp: parse_type_def scalar_or_absent_def bind_eq_None_conv simp del: not_None_eq split: option.split)

lemma parse_id_total: "r_name r \<noteq> None \<Longrightarrow> scalar_or_absent n \<Longrightarrow> parse_id ctx n r \<noteq> None"
  by (auto simp: parse_id_def scalar_or_absent_def Let_def simp del: not_None_eq split: option.split)

lemma own_or_default_total:
  "scalar_or_absent n \<Longrightarrow> def \<noteq> None \<Longrightarrow> \<exists>s. own_or_default n def = Some (Some s)"
  by (auto simp: own_or_default_def scalar_or_absent_def split: option.split)

lemma parse_language_total: "df_language defs \<noteq> None \<Longrightarrow> parse_language defs n r \<noteq> None"
  by (auto simp: parse_language_def own_or_default_def split: option.split)

lemma parse_compression_total:
  assumes "r_name r \<noteq> None" and "scalar_or_absent n" and "df_compression defs \<noteq> None"
  shows "parse_compression ctx rnode defs n r \<noteq> None"
proof -
  obtain s where "own_or_default n (df_compression defs) = Some (Some s)"
    using own_or_default_total [OF assms(2,3)] by blast
  then show ?thesis using assms(1) by (auto simp: parse_compression_def simp del: not_None_eq split: option.split)
qed

lemma parse_encryption_total:
  assumes "r_name r \<noteq> None" and "scalar_or_absent n" and "df_encryption defs \<noteq> None"
  shows "parse_encryption ctx rnode defs n r \<noteq> None"
proof -
  obtain s where "own_or_default n (df_encryption defs) = Some (Some s)"
    using own_or_default_total [OF assms(2,3)] by blast
  then show ?thesis using assms(1) by (auto simp: parse_encryption_def simp del: not_None_eq)
qed

definition defaults_ok :: "defaults \<Rightarrow> bool" where
  "defaults_ok defs \<longleftrightarrow> df_language defs \<noteq> None \<and> df_compression defs \<noteq> None \<and> df_encryption defs \<noteq> None"

lemma parse_fields_total:
  assumes "r_name r \<noteq> None" and "r_file r \<noteq> None" and "scalar_fields (pc_doc ctx) rnode resource_fields"
    and defs: "defaults_ok defs"
  shows "\<exists>res. parse_fields ctx rnode defs r = Some res"
proof -
  let ?f = "map_get (pc_doc ctx) rnode"
  have s: "scalar_or_absent (?f ''type'')" "scalar_or_absent (?f ''id'')" "scalar_or_absent (?f ''compression'')"
    "scalar_or_absent (?f ''encryption'')"
    using assms(3) by (simp_all add: scalar_fields_def resource_fields_def)
  obtain c1 r1 where 1: "parse_type ctx (?f ''type'') r = Some (c1, r1)"
    using parse_type_total [OF assms(1,2) s(1), of ctx] by auto
  then have n1: "r_name r1 \<noteq> None" using parse_type_step assms(1) by (fastforce simp: step_ok_def)
  obtain c2 r2 where 2: "parse_id c1 (?f ''id'') r1 = Some (c2, r2)"
    using parse_id_total [OF n1 s(2), of c1] by auto
  then have n2: "r_name r2 \<noteq> None" using parse_id_step n1 by (fastforce simp: step_ok_def)
  obtain r3 where 3: "parse_language defs (?f ''language'') r2 = Some r3"
    using parse_language_total [of defs "?f ''language''" r2] defs by (auto simp: defaults_ok_def)
  then have n3: "r_name r3 \<noteq> None" using n2 by (auto simp: parse_language_def bind_eq_Some_conv)
  obtain c4 r4 where 4: "parse_compression c2 rnode defs (?f ''compression'') r3 = Some (c4, r4)"
    using parse_compression_total [OF n3 s(3), of defs c2 rnode] defs by (auto simp: defaults_ok_def)
  then have n4: "r_name r4 \<noteq> None" using parse_compression_step n3 by (fastforce simp: step_ok_def)
  obtain c5 r5 where 5: "parse_encryption c4 rnode defs (?f ''encryption'') r4 = Some (c5, r5)"
    using parse_encryption_total [OF n4 s(4), of defs c4 rnode] defs by (auto simp: defaults_ok_def)
  then have n5: "r_name r5 \<noteq> None" using parse_encryption_step n4 by (fastforce simp: step_ok_def)
  obtain c6 r6 where 6: "parse_metadata c5 (?f ''metadata'') r5 = Some (c6, r6)"
    using parse_metadata_total [OF n5, of c5 "?f ''metadata''"] by auto
  then have n6: "r_name r6 \<noteq> None" using parse_metadata_step n5 by (fastforce simp: step_ok_def)
  obtain res where "parse_flags c6 (?f ''flags'') r6 = Some res" using parse_flags_total [OF n6, of c6 "?f ''flags''"] by auto
  then show ?thesis using 1 2 3 4 5 6 by (simp add: parse_fields_def Let_def)
qed

lemma parse_new_resource_total:
  assumes "scalar_fields (pc_doc ctx) rnode resource_fields" and "defaults_ok defs"
  shows "\<exists>ctx' r'. parse_new_resource is_reg ctx rnode defs = Some (ctx', r')
    \<and> (pc_failed ctx' \<or> r_name r' \<noteq> None)"
proof -
  let ?name = "map_get (pc_doc ctx) rnode ''name''" and ?file = "map_get (pc_doc ctx) rnode ''file''"
  let ?r0 = "zero_resource\<lparr>r_line := node_line rnode\<rparr>"
  have s: "scalar_or_absent ?name" "scalar_or_absent ?file"
    using assms(1) by (simp_all add: scalar_fields_def resource_fields_def)
  have fail: "\<exists>ctx'. set_error ctx line msg = Some ctx' \<and> pc_failed ctx'" if "msg \<noteq> None" for line msg
    using that set_error_cases(1) [of ctx line msg] messages_defined(1) [of ctx line msg]
    by (cases "set_error ctx line msg") auto
  show ?thesis
  proof (cases "?name = None")
    case True
    then show ?thesis using fail [of "Some (''resource is missing required field '' @ quoted ''name'')" "node_line rnode"]
      by (auto simp: parse_new_resource_def)
  next
    case False
    then obtain name where n: "scalar_dup ?name = Some name" using s(1) by (auto simp: scalar_or_absent_def)
    let ?r1 = "?r0\<lparr>r_name := scalar_dup ?name\<rparr>"
    show ?thesis
    proof (cases "?file = None")
      case True
      then show ?thesis
        using False n fail [of "Some (''resource '' @ quoted name @ '' is missing required field '' @ quoted ''file'')"
          "node_line rnode"]
        by (auto simp: parse_new_resource_def)
    next
      case nofile: False
      then obtain file_rel where f: "scalar_dup ?file = Some file_rel" using s(2) by (auto simp: scalar_or_absent_def)
      let ?r2 = "?r1\<lparr>r_file := Some (resolve_file ctx file_rel)\<rparr>"
      show ?thesis
      proof (cases "is_reg (resolve_file ctx file_rel)")
        case False
        then show ?thesis
          using \<open>?name \<noteq> None\<close> nofile n f
            fail [of "resource_msg1 ?r2 ''cannot open file '' (r_file ?r2) []" "r_line ?r2"]
          by (auto simp: parse_new_resource_def Let_def)
      next
        case True
        obtain ctx' r' where res: "parse_fields ctx rnode defs ?r2 = Some (ctx', r')"
          using parse_fields_total [of ?r2 ctx rnode defs] n assms by auto
        then have "r_name r' \<noteq> None" using parse_fields_step n by (fastforce simp: step_ok_def)
        then show ?thesis using True \<open>?name \<noteq> None\<close> nofile n f res
          by (auto simp: parse_new_resource_def Let_def)
      qed
    qed
  qed
qed

text \<open>The loop: it returns, and every resource it has pushed without failing has a name.\<close>

lemma parse_resources_total:
  assumes "defaults_ok defs" and "all_named (mf_resources m)"
    and "list_all (\<lambda>i. node_at (pc_doc ctx) i \<noteq> None
      \<and> scalar_fields (pc_doc ctx) (node_at (pc_doc ctx) i) resource_fields) items"
  shows "\<exists>ctx' m'. parse_resources is_reg ctx items defs m = Some (ctx', m')
    \<and> (pc_failed ctx' \<or> all_named (mf_resources m')
        \<and> length (mf_resources m') \<le> length (mf_resources m) + length items)"
  using assms
proof (induction items arbitrary: m)
  case Nil
  then show ?case by simp
next
  case (Cons item items)
  then obtain rnode where node: "node_at (pc_doc ctx) item = Some rnode" by auto
  obtain ctx1 m1 where 1: "parse_resource is_reg ctx rnode defs m = Some (ctx1, m1)"
    and ok: "pc_failed ctx1 \<or> all_named (mf_resources m1) \<and> length (mf_resources m1) \<le> length (mf_resources m) + 1"
  proof (cases rnode)
    case (YAML_MAPPING_NODE l pairs)
    have "scalar_fields (pc_doc ctx) (Some rnode) resource_fields" using Cons.prems(3) node by simp
    from parse_new_resource_total [OF this assms(1)] obtain c r where
      "parse_new_resource is_reg ctx (Some rnode) defs = Some (c, r)" "pc_failed c \<or> r_name r \<noteq> None" by blast
    then show thesis using that [of c "push_resource m r"] YAML_MAPPING_NODE Cons.prems(2)
      by (auto simp: parse_resource_def push_resource_def all_named_def)
  next
    case (YAML_SCALAR_NODE l v)
    then show thesis using that messages_defined(1) set_error_cases(1)
      by (cases "set_error ctx (node_line (Some rnode)) (Some (''each entry in '' @ quoted ''resources'' @ '' must be a mapping''))")
        (auto simp: parse_resource_def)
  next
    case (YAML_SEQUENCE_NODE l v)
    then show thesis using that messages_defined(1) set_error_cases(1)
      by (cases "set_error ctx (node_line (Some rnode)) (Some (''each entry in '' @ quoted ''resources'' @ '' must be a mapping''))")
        (auto simp: parse_resource_def)
  qed
  show ?case
  proof (cases "pc_failed ctx1")
    case True
    then show ?thesis using node 1 by simp
  next
    case False
    then have c: "ctx1 = ctx"
      using parse_resource_step [OF 1] ctx_extends_failed by (auto simp: manifest_step_def)
    have n1: "all_named (mf_resources m1)" and l1: "length (mf_resources m1) \<le> length (mf_resources m) + 1"
      using ok False by simp_all
    from Cons.IH [OF assms(1) n1] Cons.prems(3) obtain ctx' m' where
      "parse_resources is_reg ctx items defs m1 = Some (ctx', m')"
      "pc_failed ctx' \<or> all_named (mf_resources m')
        \<and> length (mf_resources m') \<le> length (mf_resources m1) + length items" by auto
    then show ?thesis using node 1 c False l1 by auto
  qed
qed

lemma assign_and_validate_total:
  assumes "all_named (mf_resources m)" and "length (mf_resources m) + 1 < 2 ^ 32" and "\<not> pc_failed ctx"
  shows "\<exists>res. assign_and_validate_ids ctx m = Some res"
  using assign_and_validate_spec [OF assms(3,1,2)] by blast

lemma parse_manifest_total:
  assumes doc: "doc_scalars (pc_doc ctx)" and "\<not> pc_failed ctx"
  shows "\<exists>res. parse_manifest is_reg ctx = Some res"
proof -
  let ?doc = "pc_doc ctx"
  let ?root = "yaml_document_get_root_node ?doc"
  let ?version = "map_get ?doc ?root ''version''" and ?resources = "map_get ?doc ?root ''resources''"
  let ?m = "empty_manifest\<lparr>mf_version := 1, mf_module := scalar_dup (map_get ?doc ?root ''module'')\<rparr>"
  let ?defs = "parse_defaults ?doc (map_get ?doc ?root ''defaults'')"
  have fail: "\<exists>ctx'. set_error ctx line (Some msg) = Some ctx'" for line msg
  proof -
    have "set_error ctx line (Some msg) \<noteq> None" by (simp del: not_None_eq)
    then show ?thesis by (simp only: not_None_eq)
  qed
  have version: "?version = None \<or> (\<exists>s. scalar_dup ?version = Some s)"
    using doc by (auto simp: doc_scalars_def Let_def scalar_fields_def scalar_or_absent_def)
  show ?thesis
  proof (cases "(\<exists>l pairs. ?root = Some (YAML_MAPPING_NODE l pairs)) \<and> ?version \<noteq> None
      \<and> parse_uint (scalar_dup ?version) = Some 1 \<and> (\<exists>l items. ?resources = Some (YAML_SEQUENCE_NODE l items))")
    case False
    then show ?thesis
      using version fail
      by (auto simp: parse_manifest_def Let_def fail_with_def split: option.splits yaml_node.splits)
  next
    case True
    then obtain l items where items: "?resources = Some (YAML_SEQUENCE_NODE l items)" by blast
    have all: "list_all (\<lambda>i. node_at ?doc i \<noteq> None \<and> scalar_fields ?doc (node_at ?doc i) resource_fields) items"
      and small: "length items + 1 < 2 ^ 32"
      using doc items by (simp_all add: doc_scalars_def Let_def)
    have "scalar_fields ?doc (map_get ?doc ?root ''defaults'') [''language'', ''compression'', ''encryption'']"
      using doc by (simp add: doc_scalars_def Let_def)
    then have "defaults_ok ?defs"
      by (auto simp: defaults_ok_def parse_defaults_def Let_def scalar_fields_def scalar_or_absent_def
          split: option.split)
    from parse_resources_total [OF this _ all, of ?m is_reg] obtain ctx1 m1 where
      loop: "parse_resources is_reg ctx items ?defs ?m = Some (ctx1, m1)"
      and ok: "pc_failed ctx1 \<or> all_named (mf_resources m1) \<and> length (mf_resources m1) \<le> length items"
      by (auto simp: empty_manifest_def all_named_def)
    have "pc_failed ctx1 \<or> (\<exists>res. assign_and_validate_ids ctx1 m1 = Some res)"
      using ok small assign_and_validate_total [of m1 ctx1] by fastforce
    then show ?thesis using True items loop by (auto simp: parse_manifest_def Let_def)
  qed
qed

section \<open>The properties\<close>

text \<open>
  C13. The parser always returns, with a manifest or an error, when the fields it treats as strings
  are scalars or absent: the version, the defaults, and name, file, type, id, compression and
  encryption of every resource. Nothing else in a document, of whatever shape, makes it dereference
  a \<open>NULL\<close> pointer or loop.
\<close>

theorem elfrc_manifest_parse_returns:
  assumes "load path = YamlLoaded doc" and "doc_scalars doc"
  shows "\<exists>res. elfrc_manifest_parse load is_reg path = Some res"
proof -
  have "doc_scalars (pc_doc (start_ctx doc path))" "\<not> pc_failed (start_ctx doc path)"
    using assms(2) by (simp_all add: start_ctx_def)
  from parse_manifest_total [OF this, of is_reg] obtain ctx' m where
    "parse_manifest is_reg (start_ctx doc path) = Some (ctx', m)" by auto
  then show ?thesis using assms(1) by (simp add: elfrc_manifest_parse_def)
qed

theorem elfrc_manifest_parse_returns_witness:
  "\<exists>res. elfrc_manifest_parse (\<lambda>p. YamlLoaded sample_document) (\<lambda>f. f = ''/t.txt'') ''m'' = Some res"
proof (rule elfrc_manifest_parse_returns)
  show "doc_scalars sample_document" by code_simp
qed simp


end
