(* ===== verification/Pipeline.thy ===== *)
theory Pipeline
  imports Elfrc_Main Dump_Roundtrip Manifest_Total
begin

text \<open>
  Lemmas on the whole compiler, from its arguments to the object file, shared by the properties of
  the root theory.
\<close>

definition plain_path :: "string \<Rightarrow> bool" where
  "plain_path path \<longleftrightarrow> (case path of c # _ \<Rightarrow> c \<noteq> CHR ''-'' | [] \<Rightarrow> True)"

lemma elfrc_args_output:
  assumes "plain_path path"
  shows "elfrc_args \<lparr>eo_manifest = None, eo_output = None, eo_prefix = None\<rparr> [path, ''-o'', out]
    = Inr \<lparr>eo_manifest = Some path, eo_output = Some out, eo_prefix = None\<rparr>"
  using assms by (cases path) (simp_all add: elfrc_plain_arg_def plain_path_def)

lemma elfrc_main_compiles:
  assumes parse: "elfrc_manifest_parse load is_reg path = Some (Inr m)" and comp: "compiles fs m ns ds"
    and data: "data_size ds \<le> 2 ^ 60" and path: "plain_path path"
    and out: "outs out = Some room" "2 ^ 64 \<le> room"
  obtains c h es tbl img p where
    "elfrc_main load is_reg fs outs [path, ''-o'', out]
      = Some \<lparr>er_code = 0, er_stderr = [Wrote out (ec_size c) (length (mf_resources m))],
          er_written = Some (out, img)\<rparr>"
    "elfrc_container_build fs m = Some (Inr c)"
    "container_image (ec_data c) (mf_resources m) ns ds h es tbl" "unat (ec_size c) = length (ec_data c)"
    "elf_image img (ec_data c) (mf_module m) p"
    "length ns = length (mf_resources m)" "\<forall>n\<in>set ns. no_nul n"
proof -
  from compiled_object [OF comp data, of "mf_module m"] obtain c h es tbl img p where
    c: "elfrc_container_build fs m = Some (Inr c)"
    "container_image (ec_data c) (mf_resources m) ns ds h es tbl" "unat (ec_size c) = length (ec_data c)"
    "elf_object c (mf_module m) = Some img" "elf_image img (ec_data c) (mf_module m) p"
    "length ns = length (mf_resources m)" "\<forall>n\<in>set ns. no_nul n" by metis
  have w: "elfrc_write_elf_object outs c (mf_module m) out = Some (None, Some img)"
    by (rule write_whole_object [OF c(4,5), of outs, OF out])
  have "elfrc_main load is_reg fs outs [path, ''-o'', out]
      = Some \<lparr>er_code = 0, er_stderr = [Wrote out (ec_size c) (length (mf_resources m))],
          er_written = Some (out, img)\<rparr>"
    using elfrc_args_output [OF path, of out] parse c(1) w
    by (simp add: elfrc_main_def elfrc_compile_def Let_def)
  then show thesis by (rule that [OF _ c(1,2,3,5,6,7)])
qed

text \<open>Every way \<open>elfrc_compile\<close> can end.\<close>

lemma elfrc_compile_cases:
  assumes "elfrc_compile load is_reg fs outs opts path = Some res"
  obtains (bad_manifest) msg where "elfrc_manifest_parse load is_reg path = Some (Inl msg)"
      "res = elfrc_exit 1 [ManifestError msg]"
    | (bad_file) m e where "elfrc_manifest_parse load is_reg path = Some (Inr m)"
      "elfrc_container_build fs m = Some (Inl e)" "res = elfrc_exit 1 [BuildError e]"
    | (no_output) m c e where "elfrc_manifest_parse load is_reg path = Some (Inr m)"
      "elfrc_container_build fs m = Some (Inr c)"
      "res = \<lparr>er_code = 1, er_stderr = [WriteError e], er_written = None\<rparr>"
    | (short_output) m c e out prefix img n where "elfrc_manifest_parse load is_reg path = Some (Inr m)"
      "elfrc_container_build fs m = Some (Inr c)" "elf_object c prefix = Some img" "n < length img"
      "res = \<lparr>er_code = 1, er_stderr = [WriteError e], er_written = Some (out, take n img)\<rparr>"
    | (written_whole) m c out prefix img where "elfrc_manifest_parse load is_reg path = Some (Inr m)"
      "elfrc_container_build fs m = Some (Inr c)" "elf_object c prefix = Some img"
      "res = \<lparr>er_code = 0, er_stderr = [Wrote out (ec_size c) (length (mf_resources m))],
        er_written = Some (out, img)\<rparr>"
proof -
  from assms obtain parsed where p: "elfrc_manifest_parse load is_reg path = Some parsed"
    by (auto simp: elfrc_compile_def bind_eq_Some_conv)
  show thesis
  proof (cases parsed)
    case (Inl msg)
    then show thesis using assms p bad_manifest by (simp add: elfrc_compile_def)
  next
    case (Inr m)
    then obtain built where b: "elfrc_container_build fs m = Some built"
      using assms p by (auto simp: elfrc_compile_def Let_def bind_eq_Some_conv)
    show thesis
    proof (cases built)
      case (Inl e)
      then show thesis using assms p b Inr bad_file by (simp add: elfrc_compile_def Let_def)
    next
      case c: (Inr c)
      define prefix where "prefix = (if eo_prefix opts = None then mf_module m else eo_prefix opts)"
      define out where "out = (case eo_output opts of Some p \<Rightarrow> p | None \<Rightarrow> derive_output_name path)"
      obtain err written where w: "elfrc_write_elf_object outs c prefix out = Some (err, written)"
        using assms p b Inr c by (auto simp: elfrc_compile_def Let_def bind_eq_Some_conv prefix_def out_def)
      then obtain img where img: "elf_object c prefix = Some img"
        by (auto simp: elfrc_write_elf_object_def bind_eq_Some_conv)
      have res: "res = (case err of
          Some e \<Rightarrow> \<lparr>er_code = 1, er_stderr = [WriteError e], er_written = map_option (\<lambda>bytes. (out, bytes)) written\<rparr>
        | None \<Rightarrow> \<lparr>er_code = 0, er_stderr = [Wrote out (ec_size c) (length (mf_resources m))],
            er_written = map_option (\<lambda>bytes. (out, bytes)) written\<rparr>)"
        using assms p b Inr c w by (cases err) (simp_all add: elfrc_compile_def Let_def prefix_def out_def)
      have pb: "elfrc_manifest_parse load is_reg path = Some (Inr m)" "elfrc_container_build fs m = Some (Inr c)"
        using p b Inr c by simp_all
      show thesis
      proof (cases "outs out")
        case None
        then show thesis using w img res no_output [OF pb] by (auto simp: elfrc_write_elf_object_def)
      next
        case (Some room)
        show thesis
        proof (cases "room < length img")
          case True
          then show thesis using w img res Some short_output [OF pb img, of room]
            by (auto simp: elfrc_write_elf_object_def)
        next
          case False
          then show thesis using w img res Some written_whole [OF pb img, of out]
            by (auto simp: elfrc_write_elf_object_def)
        qed
      qed
    qed
  qed
qed

lemma elfrc_args_messages:
  "elfrc_args opts args = Inl res \<Longrightarrow> er_written res = None
    \<and> (er_code res = 1 \<and> er_stderr res \<noteq> [] \<or> er_code res = 0 \<and> er_stderr res = [ElfrcUsage])"
  by (induction opts args rule: elfrc_args.induct)
    (auto simp: elfrc_plain_arg_def elfrc_exit_def split: if_splits sum.splits)

lemma elfrc_main_cases:
  assumes "elfrc_main load is_reg fs outs args = Some res"
  obtains (stop) "er_written res = None"
      "er_code res = 1 \<and> er_stderr res \<noteq> [] \<or> er_code res = 0 \<and> er_stderr res = [ElfrcUsage]"
    | (compile) opts path where "elfrc_compile load is_reg fs outs opts path = Some res"
  using assms elfrc_args_messages
  by (fastforce simp: elfrc_main_def elfrc_exit_def split: sum.splits option.splits)

lemma first_index_distinct: "distinct xs \<Longrightarrow> i < length xs \<Longrightarrow> first_index (xs ! i) xs = Some i"
  by (simp add: first_index_Some nth_eq_iff_index_eq)

section \<open>A sample run\<close>

definition sample_app_files :: file_system where
  "sample_app_files path =
     (if path = ''res/logo.png'' then Some \<lparr>of_size = 2, of_bytes = [8, 9]\<rparr>
      else if path = ''/t.txt'' \<or> path = ''res/t.json'' then Some \<lparr>of_size = 0, of_bytes = []\<rparr> else None)"

lemma sample_parsed_compiles:
  "compiles sample_app_files sample_parsed [''logo'', ''text'', ''text''] [[8, 9], [], []]"
  by (simp add: compiles_def sample_parsed_def sample_app_files_def file_bytes_def container_fits_def
      index_size_def table_size_def)

definition sample_load :: "string \<Rightarrow> yaml_load" where
  "sample_load path = YamlLoaded sample_document"

lemma sample_load_parses:
  "elfrc_manifest_parse sample_load (\<lambda>f. True) ''res/app.yaml'' = Some (Inr sample_parsed)"
  using sample_document_parses by (simp add: elfrc_manifest_parse_def sample_load_def)

end
