(* ===== verification/Erf_Lookup.thy ===== *)
theory Erf_Lookup
  imports Erf_Safety
begin

text \<open>
  \<open>src/libelfr/erf_lookup.c\<close>: the default container, opened lazily on first use. The module's
  static variables and the thread's last error are the state; the calls of a program are the
  steps. \<open>linked\<close> is what the linker provides for the weak symbols: nothing, or the memory at
  \<open>_elfr_resource_start\<close> and the distance to \<open>_elfr_resource_end\<close>.
\<close>

section \<open>State and operations\<close>

record lookup_state =
  g_default_container :: "ERFContainer option"
  g_default_attempted :: bool
  g_last_error :: ERFError

type_synonym linked_section = "(memory \<times> u64) option"

definition lookup_start :: lookup_state where
  "lookup_start = \<lparr>g_default_container = None, g_default_attempted = False, g_last_error = ERF_OK\<rparr>"

definition get_default_container ::
    "linked_section \<Rightarrow> lookup_state \<Rightarrow> (ERFContainer option \<times> lookup_state) option" where
  "get_default_container linked st =
     (if g_default_attempted st then Some (g_default_container st, st)
      else let st1 = st\<lparr>g_default_attempted := True\<rparr> in
        case linked of
          None \<Rightarrow> Some (None, st1\<lparr>g_last_error := ERF_ERR_NO_DEFAULT_CONTAINER\<rparr>)
        | Some (start, sz) \<Rightarrow> do {
            (c, e) \<leftarrow> erf_open_memory (Some start) sz (g_last_error st1);
            Some (c, st1\<lparr>g_default_container := c, g_last_error := e\<rparr>)
          })"

definition erf_find ::
    "linked_section \<Rightarrow> string option \<Rightarrow> lookup_state \<Rightarrow> (ERFResource option \<times> lookup_state) option" where
  "erf_find linked name st = do {
     (c, st1) \<leftarrow> get_default_container linked st;
     if c = None then Some (None, st1)
     else do {
       (r, e) \<leftarrow> erf_find_in c name (g_last_error st1);
       Some (r, st1\<lparr>g_last_error := e\<rparr>)
     }
   }"

definition erf_find_id ::
    "linked_section \<Rightarrow> u32 \<Rightarrow> lookup_state \<Rightarrow> (ERFResource option \<times> lookup_state) option" where
  "erf_find_id linked i st = do {
     (c, st1) \<leftarrow> get_default_container linked st;
     if c = None then Some (None, st1)
     else let (r, e) = erf_find_id_in c i (g_last_error st1) in Some (r, st1\<lparr>g_last_error := e\<rparr>)
   }"

definition erf_resource_data ::
    "linked_section \<Rightarrow> string option \<Rightarrow> lookup_state \<Rightarrow> ((u64 option \<times> u64) \<times> lookup_state) option" where
  "erf_resource_data linked name st = do {
     (c, st1) \<leftarrow> get_default_container linked st;
     if c = None then Some ((None, 0), st1)
     else do {
       (d, e) \<leftarrow> erf_resource_data_in c name (g_last_error st1);
       Some (d, st1\<lparr>g_last_error := e\<rparr>)
     }
   }"

section \<open>The state machine\<close>

text \<open>
  The calls of a program: the three functions above, and any call of the explicit-handle API on
  the same thread, which may leave any error code behind.
\<close>

datatype lookup_call = Find "string option" | FindId u32 | ResourceData "string option" | OtherCall ERFError

inductive lookup_step :: "linked_section \<Rightarrow> lookup_state \<Rightarrow> lookup_call \<Rightarrow> lookup_state \<Rightarrow> bool"
  for linked where
  step_find: "erf_find linked name st = Some (r, st') \<Longrightarrow> lookup_step linked st (Find name) st'"
| step_find_id: "erf_find_id linked i st = Some (r, st') \<Longrightarrow> lookup_step linked st (FindId i) st'"
| step_data: "erf_resource_data linked name st = Some (d, st') \<Longrightarrow> lookup_step linked st (ResourceData name) st'"
| step_other: "lookup_step linked st (OtherCall e) (st\<lparr>g_last_error := e\<rparr>)"

inductive_simps lookup_step_simps [simp]:
  "lookup_step linked st (Find name) st'"
  "lookup_step linked st (FindId i) st'"
  "lookup_step linked st (ResourceData name) st'"
  "lookup_step linked st (OtherCall e) st'"

inductive lookup_reachable :: "linked_section \<Rightarrow> lookup_call list \<Rightarrow> lookup_state \<Rightarrow> bool"
  for linked where
  reach_start: "lookup_reachable linked [] lookup_start"
| reach_step: "lookup_reachable linked calls st \<Longrightarrow> lookup_step linked st call st'
    \<Longrightarrow> lookup_reachable linked (calls @ [call]) st'"

text \<open>The container the section opens as, whatever the error state before.\<close>

definition default_of :: "linked_section \<Rightarrow> ERFContainer option" where
  "default_of linked = (case linked of
      None \<Rightarrow> None
    | Some (start, sz) \<Rightarrow> if erf_valid start (unat sz) then Some (opened start sz) else None)"

definition linked_ok :: "linked_section \<Rightarrow> bool" where
  "linked_ok linked \<longleftrightarrow> (case linked of None \<Rightarrow> True | Some (start, sz) \<Rightarrow> unat sz \<le> length start)"

definition lookup_inv :: "linked_section \<Rightarrow> lookup_state \<Rightarrow> bool" where
  "lookup_inv linked st \<longleftrightarrow>
     g_default_container st = (if g_default_attempted st then default_of linked else None)"

definition is_lookup :: "lookup_call \<Rightarrow> bool" where
  "is_lookup call \<longleftrightarrow> (\<forall>e. call \<noteq> OtherCall e)"

lemma get_default_container_spec:
  assumes inv: "lookup_inv linked st" and ok: "linked_ok linked"
  obtains st' where "get_default_container linked st = Some (default_of linked, st')"
    "g_default_attempted st'" "g_default_container st' = default_of linked"
    "g_default_attempted st \<Longrightarrow> st' = st"
    "\<not> g_default_attempted st \<Longrightarrow> g_last_error st' = (case linked of
       None \<Rightarrow> ERF_ERR_NO_DEFAULT_CONTAINER | Some (start, sz) \<Rightarrow> open_verdict start (unat sz))"
proof (cases "g_default_attempted st")
  case True
  then show thesis using inv that [of st] by (simp add: get_default_container_def lookup_inv_def)
next
  case False
  show thesis
  proof (cases linked)
    case None
    then show thesis
      using False inv that [of "st\<lparr>g_default_attempted := True, g_last_error := ERF_ERR_NO_DEFAULT_CONTAINER\<rparr>"]
      by (simp add: get_default_container_def default_of_def lookup_inv_def)
  next
    case (Some p)
    obtain start sz where p: "p = (start, sz)" by (cases p)
    have "unat sz \<le> length start" using ok Some p by (simp add: linked_ok_def)
    then show thesis
      using False Some p that [of "st\<lparr>g_default_attempted := True, g_default_container := default_of linked,
          g_last_error := open_verdict start (unat sz)\<rparr>"]
      by (simp add: get_default_container_def default_of_def erf_open_memory_spec)
  qed
qed

lemma lookup_step_inv:
  assumes "lookup_step linked st call st'" and inv: "lookup_inv linked st" and ok: "linked_ok linked"
  shows "lookup_inv linked st'
    \<and> g_default_attempted st' = (g_default_attempted st \<or> is_lookup call)"
proof -
  from inv ok obtain st1 where g: "get_default_container linked st = Some (default_of linked, st1)"
    "g_default_attempted st1" "g_default_container st1 = default_of linked"
    by (rule get_default_container_spec) blast
  show ?thesis
  proof (cases call)
    case (Find name)
    then show ?thesis using assms(1) g
      by (auto simp: erf_find_def bind_eq_Some_conv lookup_inv_def is_lookup_def split: if_splits)
  next
    case (FindId i)
    then show ?thesis using assms(1) g
      by (auto simp: erf_find_id_def Let_def lookup_inv_def is_lookup_def split: if_splits prod.splits)
  next
    case (ResourceData name)
    then show ?thesis using assms(1) g
      by (auto simp: erf_resource_data_def bind_eq_Some_conv lookup_inv_def is_lookup_def split: if_splits)
  next
    case (OtherCall e)
    then show ?thesis using assms(1) inv by (simp add: lookup_inv_def is_lookup_def)
  qed
qed

lemma lookup_reachable_inv:
  assumes "lookup_reachable linked calls st" and "linked_ok linked"
  shows "lookup_inv linked st \<and> g_default_attempted st = list_ex is_lookup calls"
  using assms
proof (induction rule: lookup_reachable.induct)
  case reach_start
  then show ?case by (simp add: lookup_inv_def lookup_start_def)
next
  case (reach_step calls st call st')
  then show ?case using lookup_step_inv by simp
qed



text \<open>Names a program passes are C strings, and those of the linked container are terminated.\<close>

definition call_ok :: "lookup_call \<Rightarrow> bool" where
  "call_ok call \<longleftrightarrow> (case call of
      Find (Some name) \<Rightarrow> no_nul name | ResourceData (Some name) \<Rightarrow> no_nul name | _ \<Rightarrow> True)"

definition names_linked :: "linked_section \<Rightarrow> bool" where
  "names_linked linked \<longleftrightarrow> (case default_of linked of None \<Rightarrow> True | Some c \<Rightarrow> names_end c)"

lemma default_find_returns:
  assumes "linked_ok linked" and "names_linked linked" and "case name of Some n \<Rightarrow> no_nul n | None \<Rightarrow> True"
    and "default_of linked = Some c"
  shows "\<exists>r e'. erf_find_in (Some c) name e = Some (r, e')"
proof (cases name)
  case None
  then show ?thesis by (simp add: erf_find_in_def)
next
  case (Some n)
  from assms(4) obtain m sz where c: "linked = Some (m, sz)" "c = opened m sz" "erf_valid m (unat sz)"
    by (auto simp: default_of_def split: option.splits if_splits)
  have "unat sz \<le> length m" "names_end (opened m sz)" "no_nul n"
    using assms c Some by (simp_all add: linked_ok_def names_linked_def)
  then obtain r where "erf_find_in (Some (opened m sz)) (Some n) e = Some (found r)"
    using find_in_returns [OF _ c(3), of n e] by metis
  then show ?thesis using c(2) Some by (simp add: found_def)
qed

text \<open>
  C18. The default container never blocks a program: in every state it can reach, and whether a
  section is linked or not and valid or not, each call with terminated names has a defined result,
  and the first lookup settles the container for good.
\<close>

theorem lookup_never_stuck:
  assumes "lookup_reachable linked calls st" and "linked_ok linked" and "names_linked linked"
    and "call_ok call"
  shows "\<exists>st'. lookup_step linked st call st'
    \<and> (is_lookup call \<longrightarrow> g_default_attempted st' \<and> g_default_container st' = default_of linked)"
proof -
  from lookup_reachable_inv [OF assms(1,2)] have inv: "lookup_inv linked st" by simp
  obtain st1 where g: "get_default_container linked st = Some (default_of linked, st1)"
    by (rule get_default_container_spec [OF inv assms(2)])
  note returns = default_find_returns [OF assms(2,3)]
  have "\<exists>st'. lookup_step linked st call st'"
  proof (cases call)
    case (Find name)
    then have "case name of Some n \<Rightarrow> no_nul n | None \<Rightarrow> True"
      using assms(4) by (auto simp: call_ok_def split: option.splits)
    then have "\<exists>r st'. erf_find linked name st = Some (r, st')"
      using g returns [of name _ "g_last_error st1"] by (cases "default_of linked") (auto simp: erf_find_def)
    then show ?thesis using Find by auto
  next
    case (FindId i)
    then show ?thesis using g
      by (cases "erf_find_id_in (default_of linked) i (g_last_error st1)") (auto simp: erf_find_id_def)
  next
    case (ResourceData name)
    then have "case name of Some n \<Rightarrow> no_nul n | None \<Rightarrow> True"
      using assms(4) by (auto simp: call_ok_def split: option.splits)
    then have "\<exists>d st'. erf_resource_data linked name st = Some (d, st')"
      using g returns [of name _ "g_last_error st1"]
      by (cases "default_of linked") (auto simp: erf_resource_data_def erf_resource_data_in_def split: option.split)
    then show ?thesis using ResourceData by auto
  next
    case (OtherCall e)
    then show ?thesis by simp
  qed
  then obtain st' where step: "lookup_step linked st call st'" by blast
  from lookup_step_inv [OF step inv assms(2)] step show ?thesis by (auto simp: lookup_inv_def)
qed

theorem lookup_never_stuck_witness:
  "\<exists>st'. lookup_step (Some (tiny [97, 0] 0, 290)) lookup_start (Find (Some ''a'')) st'
    \<and> g_default_attempted st' \<and> g_default_container st' = default_of (Some (tiny [97, 0] 0, 290))"
proof -
  let ?linked = "Some (tiny [97, 0] 0, 290)"
  have ok: "linked_ok ?linked" by (simp add: linked_ok_def length_tiny)
  have names: "names_linked ?linked"
    by (simp add: names_linked_def default_of_def tiny_names_end)
  have "call_ok (Find (Some ''a''))" by (simp add: call_ok_def)
  from lookup_never_stuck [OF reach_start ok names this] show ?thesis by (auto simp: is_lookup_def)
qed


end
