(* ===== verification/Erf_Handles.thy ===== *)
theory Erf_Handles
  imports Erf_Safety
begin

text \<open>
  Ownership of the containers of \<open>src/libelfr/erf_reader.c\<close>: \<open>erf_open_memory\<close> allocates the
  array of resources and the container, frees the array when a directory entry is bad, and
  \<open>erf_close\<close> frees both. A handle is the address of a container on an explicit heap; freeing or
  reading a block that is not live is an execution without a defined result. The calls of a program
  on its handles are the steps of a state machine.
\<close>

section \<open>The heap\<close>

text \<open>
  A container block holds the fields of the structure; its \<open>resources\<close> pointer is the address of
  an array block, and the list of resources in the record is left empty.
\<close>

datatype block = Resources "ERFResource list" | Container ERFContainer nat

text \<open>Allocation gives the next address, which has never been used before.\<close>

record heap =
  hp_next :: nat
  hp_blocks :: "nat \<rightharpoonup> block"

definition heap_alloc :: "block \<Rightarrow> heap \<Rightarrow> nat \<times> heap" where
  "heap_alloc b h = (hp_next h, h\<lparr>hp_next := Suc (hp_next h), hp_blocks := (hp_blocks h)(hp_next h \<mapsto> b)\<rparr>)"

text \<open>\<open>free\<close>: nothing for \<open>NULL\<close>, undefined for a block that is not live.\<close>

definition heap_free :: "nat option \<Rightarrow> heap \<Rightarrow> heap option" where
  "heap_free p h = (case p of
      None \<Rightarrow> Some h
    | Some a \<Rightarrow> if hp_blocks h a = None then None else Some (h\<lparr>hp_blocks := (hp_blocks h)(a := None)\<rparr>))"

definition set_resource :: "nat \<Rightarrow> nat \<Rightarrow> ERFResource \<Rightarrow> heap \<Rightarrow> heap option" where
  "set_resource rp i r h = (case hp_blocks h rp of
      Some (Resources rs) \<Rightarrow>
        if i < length rs then Some (h\<lparr>hp_blocks := (hp_blocks h)(rp \<mapsto> Resources (rs[i := r]))\<rparr>) else None
    | _ \<Rightarrow> None)"

text \<open>The container behind a live handle, with the first \<open>resource_count\<close> elements of its array.\<close>

definition handle_view :: "heap \<Rightarrow> nat \<Rightarrow> ERFContainer option" where
  "handle_view h p = (case hp_blocks h p of
      Some (Container c rp) \<Rightarrow>
        (case hp_blocks h rp of
           Some (Resources rs) \<Rightarrow> Some (c\<lparr>c_resources := take (unat (c_resource_count c)) rs\<rparr>)
         | _ \<Rightarrow> None)
    | _ \<Rightarrow> None)"

section \<open>Opening and closing\<close>

definition cleared_resource :: ERFResource where
  "cleared_resource = \<lparr>res_id = 0, res_type = 0, res_language = 0, res_flags = 0, res_name = 0,
     res_data = 0, res_size = 0, res_timestamp = 0, res_metadata_offset = 0\<rparr>"

text \<open>The loop over the directory; the result \<open>False\<close> says that an entry was bad and the array freed.\<close>

fun fill_resources ::
    "memory \<Rightarrow> ERFHeader \<Rightarrow> nat \<Rightarrow> nat \<Rightarrow> nat \<Rightarrow> heap \<Rightarrow> (bool \<times> heap) option" where
  "fill_resources b header rp i 0 h = Some (True, h)"
| "fill_resources b header rp i (Suc k) h = do {
     entry \<leftarrow> read_entry b header i;
     if \<not> in_bounds (h_total_size header) (ucast (d_name_offset entry)) 1
        \<or> \<not> in_bounds (h_total_size header) (d_data_offset entry) (d_data_size entry)
     then do { h' \<leftarrow> heap_free (Some rp) h; Some (False, h') }
     else do {
       h' \<leftarrow> set_resource rp i (resource_of_entry entry) h;
       fill_resources b header rp (Suc i) k h'
     }
   }"

definition erf_open_handle ::
    "memory option \<Rightarrow> u64 \<Rightarrow> heap \<Rightarrow> ERFError \<Rightarrow> (nat option \<times> heap \<times> ERFError) option" where
  "erf_open_handle base sz heap last_error =
     (if base = None \<or> unat sz < sizeof_ERFHeader
      then Some (None, heap, if sz = 0 \<or> base = None then ERF_ERR_INVALID_ARGUMENT else ERF_ERR_TRUNCATED)
      else do {
        b \<leftarrow> base;
        bytes \<leftarrow> mem_read b 0 sizeof_ERFHeader;
        let header = get_header bytes;
        case header_error header sz of
          Some e \<Rightarrow> Some (None, heap, e)
        | None \<Rightarrow> do {
            hash \<leftarrow> (if header_has_hash header then open_hash_table b header else Some (Some (0, 0)));
            case hash of
              None \<Rightarrow> Some (None, heap, ERF_ERR_BAD_OFFSET)
            | Some (bucket_count, buckets) \<Rightarrow> do {
                let n = unat (h_resource_count header);
                let (rp, heap1) = heap_alloc (Resources (replicate (if n = 0 then 1 else n) cleared_resource)) heap;
                (complete, heap2) \<leftarrow> fill_resources b header rp 0 n heap1;
                if \<not> complete then Some (None, heap2, ERF_ERR_BAD_OFFSET)
                else let (p, heap3) = heap_alloc (Container \<lparr>c_base = b, c_size = sz, c_header = header,
                        c_entry_stride = h_directory_entry_size header, c_resources = [],
                        c_resource_count = h_resource_count header,
                        c_has_hash_table = header_has_hash header,
                        c_hash_bucket_count = bucket_count, c_hash_buckets = buckets\<rparr> rp) heap2
                  in Some (Some p, heap3, ERF_OK)
              }
          }
      })"

definition erf_close :: "nat option \<Rightarrow> heap \<Rightarrow> heap option" where
  "erf_close container heap = (case container of
      None \<Rightarrow> Some heap
    | Some p \<Rightarrow>
        (case hp_blocks heap p of
           Some (Container c rp) \<Rightarrow> do { heap1 \<leftarrow> heap_free (Some rp) heap; heap_free (Some p) heap1 }
         | _ \<Rightarrow> None))"

section \<open>Opening a handle is opening a container\<close>

definition heap_ok :: "heap \<Rightarrow> bool" where
  "heap_ok h \<longleftrightarrow> (\<forall>a. hp_next h \<le> a \<longrightarrow> hp_blocks h a = None)"

lemma heap_alloc_parts:
  assumes "heap_alloc b h = (p, h')"
  shows "p = hp_next h" "hp_next h' = Suc p" "hp_blocks h' = (hp_blocks h)(p \<mapsto> b)"
  using assms by (auto simp: heap_alloc_def)

lemma fill_resources_spec:
  assumes "hp_blocks h rp = Some (Resources rs)" and "i + k \<le> length rs"
  shows "fill_resources b header rp i k h = map_option (\<lambda>r. case r of
      None \<Rightarrow> (False, h\<lparr>hp_blocks := (hp_blocks h)(rp := None)\<rparr>)
    | Some new \<Rightarrow> (True, h\<lparr>hp_blocks := (hp_blocks h)(rp \<mapsto> Resources (take i rs @ new @ drop (i + k) rs))\<rparr>))
      (open_resources b header i k)"
  using assms
proof (induction k arbitrary: i rs h)
  case 0
  then show ?case by (cases h) (simp add: fun_upd_idem)
next
  case (Suc k)
  show ?case
  proof (cases "read_entry b header i")
    case None
    then show ?thesis by simp
  next
    case (Some entry)
    show ?thesis
    proof (cases "in_bounds (h_total_size header) (ucast (d_name_offset entry)) 1
        \<and> in_bounds (h_total_size header) (d_data_offset entry) (d_data_size entry)")
      case True
      let ?r = "resource_of_entry entry"
      let ?h = "h\<lparr>hp_blocks := (hp_blocks h)(rp \<mapsto> Resources (rs[i := ?r]))\<rparr>"
      have "set_resource rp i ?r h = Some ?h" using Suc.prems by (simp add: set_resource_def)
      moreover have "take (Suc i) (rs[i := ?r]) = take i rs @ [?r]"
        using Suc.prems(2) by (simp add: take_Suc_conv_app_nth)
      ultimately show ?thesis
        using Suc.IH [of ?h "rs[i := ?r]" "Suc i"] Suc.prems Some True
        by (cases "open_resources b header (Suc i) k") (auto split: option.splits)
    next
      case False
      then show ?thesis using Suc.prems Some by (auto simp: heap_free_def)
    qed
  qed
qed

lemma open_resources_length: "open_resources b header i k = Some (Some rs) \<Longrightarrow> length rs = k"
  by (induction k arbitrary: i rs) (auto simp: bind_eq_Some_conv split: if_splits)

text \<open>
  What a successful open adds to the heap: the array and the container that points to it, at two
  fresh addresses.
\<close>

definition adds_container :: "heap \<Rightarrow> ERFContainer \<Rightarrow> nat \<Rightarrow> heap \<Rightarrow> bool" where
  "adds_container h c p h' \<longleftrightarrow>
     (\<exists>rs. p = Suc (hp_next h) \<and> hp_next h' = Suc p
       \<and> take (unat (c_resource_count c)) rs = c_resources c
       \<and> hp_blocks h' = (hp_blocks h)(hp_next h \<mapsto> Resources rs,
            p \<mapsto> Container (c\<lparr>c_resources := []\<rparr>) (hp_next h)))"

lemma adds_container_view:
  assumes "adds_container h c p h'"
  shows "handle_view h' p = Some c"
  using assms by (cases c) (auto simp: adds_container_def handle_view_def)

lemma erf_open_handle_spec:
  assumes "heap_ok h"
  shows "case erf_open_memory base sz e of
      None \<Rightarrow> erf_open_handle base sz h e = None
    | Some (None, e') \<Rightarrow> \<exists>h'. erf_open_handle base sz h e = Some (None, h', e')
        \<and> hp_blocks h' = hp_blocks h \<and> hp_next h \<le> hp_next h'
    | Some (Some c, e') \<Rightarrow> \<exists>p h'. erf_open_handle base sz h e = Some (Some p, h', e') \<and> adds_container h c p h'"
proof (cases "base = None \<or> unat sz < sizeof_ERFHeader")
  case True
  then show ?thesis by (auto simp: erf_open_memory_def erf_open_handle_def)
next
  case False
  then obtain b where b: "base = Some b" by auto
  show ?thesis
  proof (cases "mem_read b 0 sizeof_ERFHeader")
    case None
    then show ?thesis using False b by (simp add: erf_open_memory_def erf_open_handle_def)
  next
    case (Some bytes)
    let ?hd = "get_header bytes"
    let ?hash = "if header_has_hash ?hd then open_hash_table b ?hd else Some (Some (0, 0))"
    let ?n = "unat (h_resource_count ?hd)"
    define zs where "zs = replicate (if ?n = 0 then 1 else ?n) cleared_resource"
    have zs: "?n \<le> length zs" by (simp add: zs_def)
    obtain rp h1 where alloc: "heap_alloc (Resources zs) h = (rp, h1)" by fastforce
    have rp: "rp = hp_next h" "hp_next h1 = Suc rp" "hp_blocks h1 = (hp_blocks h)(rp \<mapsto> Resources zs)"
      using heap_alloc_parts [OF alloc] by simp_all
    have old: "hp_blocks h rp = None" using assms rp(1) by (simp add: heap_ok_def)
    have fill: "fill_resources b ?hd rp 0 ?n h1 = map_option (\<lambda>r. case r of
          None \<Rightarrow> (False, h1\<lparr>hp_blocks := (hp_blocks h1)(rp := None)\<rparr>)
        | Some new \<Rightarrow> (True, h1\<lparr>hp_blocks := (hp_blocks h1)(rp \<mapsto> Resources (new @ drop ?n zs))\<rparr>))
          (open_resources b ?hd 0 ?n)"
      using fill_resources_spec [of h1 rp zs 0 ?n b ?hd] rp(3) zs
      by (cases "open_resources b ?hd 0 ?n") (auto split: option.splits)
    note defs = erf_open_memory_def erf_open_handle_def b Some zs_def [symmetric] alloc Let_def
    show ?thesis
    proof (cases "header_error ?hd sz")
      case (Some e2)
      then show ?thesis using False by (simp add: defs)
    next
      case ok: None
      show ?thesis
      proof (cases ?hash)
        case None
        then show ?thesis using False ok by (simp add: defs)
      next
        case (Some r)
        show ?thesis
        proof (cases r)
          case None
          then show ?thesis using False ok Some by (simp add: defs)
        next
          case r: (Some bk)
          obtain bc bs where bk: "bk = (bc, bs)" by (cases bk)
          show ?thesis
          proof (cases "open_resources b ?hd 0 ?n")
            case None
            then show ?thesis using False ok Some r bk fill by (simp add: defs)
          next
            case new: (Some res)
            show ?thesis
            proof (cases res)
              case None
              then show ?thesis using False ok Some r bk fill new old rp
                by (auto simp: defs fun_upd_idem)
            next
              case res: (Some rs)
              have "length rs = ?n" using open_resources_length new res by blast
              then show ?thesis using False ok Some r bk fill new res rp
                by (simp add: defs heap_alloc_def [of "Container _ _"] adds_container_def)
                  (auto intro: exI [of _ "rs @ drop ?n zs"])
            qed
          qed
        qed
      qed
    qed
  qed
qed

section \<open>What the heap holds\<close>

definition array_of :: "heap \<Rightarrow> nat \<Rightarrow> nat" where
  "array_of h p = (case hp_blocks h p of Some (Container c rp) \<Rightarrow> rp | _ \<Rightarrow> p)"

definition array_blocks :: "heap \<Rightarrow> nat set" where
  "array_blocks h = {a. \<exists>rs. hp_blocks h a = Some (Resources rs)}"

text \<open>
  The heap holds exactly the open containers \<open>V\<close>: each has its container block and its own array,
  and there is no other block.
\<close>

definition holds_handles :: "heap \<Rightarrow> (nat \<rightharpoonup> ERFContainer) \<Rightarrow> bool" where
  "holds_handles h V \<longleftrightarrow> heap_ok h \<and> finite (dom V)
     \<and> (\<forall>p c. V p = Some c \<longrightarrow> handle_view h p = Some c)
     \<and> (\<forall>p c rp. hp_blocks h p = Some (Container c rp) \<longrightarrow> p \<in> dom V)
     \<and> inj_on (array_of h) (dom V) \<and> array_blocks h = array_of h ` dom V"

lemma handle_view_blocks:
  assumes "handle_view h p = Some c"
  obtains c0 rs where "hp_blocks h p = Some (Container c0 (array_of h p))"
    "hp_blocks h (array_of h p) = Some (Resources rs)" "c = c0\<lparr>c_resources := take (unat (c_resource_count c0)) rs\<rparr>"
  using assms by (auto simp: handle_view_def array_of_def split: option.splits block.splits)

lemma handle_view_eqI:
  assumes "handle_view h p = Some c" and "hp_blocks h' p = hp_blocks h p"
    and "hp_blocks h' (array_of h p) = hp_blocks h (array_of h p)"
  shows "handle_view h' p = Some c" "array_of h' p = array_of h p"
  using assms by (auto simp: handle_view_def array_of_def split: option.splits block.splits)

lemma holds_container:
  assumes "holds_handles h V" and "hp_blocks h p = Some (Container c rp)"
  shows "p \<in> dom V"
  using assms unfolding holds_handles_def by blast

lemma holds_blocks:
  assumes "holds_handles h V"
  shows "dom (hp_blocks h) = dom V \<union> array_blocks h" "dom V \<inter> array_blocks h = {}"
proof -
  have V: "\<exists>c0. hp_blocks h p = Some (Container c0 (array_of h p))" if "p \<in> dom V" for p
  proof -
    from that obtain c where "V p = Some c" by blast
    then have "handle_view h p = Some c" using assms by (simp add: holds_handles_def)
    then show ?thesis by (rule handle_view_blocks) blast
  qed
  show "dom V \<inter> array_blocks h = {}" using V by (fastforce simp: array_blocks_def)
  have "a \<in> dom V \<union> array_blocks h" if "hp_blocks h a = Some b" for a b
    using that holds_container [OF assms] by (cases b) (auto simp: array_blocks_def)
  moreover have "dom V \<subseteq> dom (hp_blocks h)" using V by blast
  moreover have "array_blocks h \<subseteq> dom (hp_blocks h)" by (auto simp: array_blocks_def)
  ultimately show "dom (hp_blocks h) = dom V \<union> array_blocks h" by blast
qed

lemma holds_card:
  assumes "holds_handles h V"
  shows "card (dom (hp_blocks h)) = 2 * card (dom V)"
proof -
  have fin: "finite (dom V)" and inj: "inj_on (array_of h) (dom V)" and eq: "array_blocks h = array_of h ` dom V"
    using assms by (auto simp: holds_handles_def)
  have "card (array_blocks h) = card (dom V)" using eq card_image [OF inj] by simp
  then show ?thesis using holds_blocks [OF assms] fin eq by (simp add: card_Un_disjoint)
qed

lemma open_holds:
  assumes holds: "holds_handles h V" and adds: "adds_container h c p h'"
  shows "holds_handles h' (V(p \<mapsto> c))" "V p = None"
proof -
  let ?n = "hp_next h"
  from adds obtain rs where p: "p = Suc ?n" "hp_next h' = Suc p"
    and blocks: "hp_blocks h' = (hp_blocks h)(?n \<mapsto> Resources rs, p \<mapsto> Container (c\<lparr>c_resources := []\<rparr>) ?n)"
    unfolding adds_container_def by blast
  have ok: "heap_ok h" and fin: "finite (dom V)" using holds by (auto simp: holds_handles_def)
  have live: "a < ?n" if "a \<in> dom V \<union> array_blocks h" for a
    using that holds_blocks(1) [OF holds] ok by (metis domD heap_ok_def not_le option.distinct(1))
  show new: "V p = None" using live [of p] p(1) by fastforce
  have old: "handle_view h' q = Some d" "array_of h' q = array_of h q" if "V q = Some d" for q d
  proof -
    have v: "handle_view h q = Some d" using holds that by (simp add: holds_handles_def)
    have "q < ?n" "array_of h q < ?n"
      using live that holds unfolding holds_handles_def by blast+
    then have "hp_blocks h' q = hp_blocks h q" "hp_blocks h' (array_of h q) = hp_blocks h (array_of h q)"
      using p(1) by (simp_all add: blocks)
    from handle_view_eqI [OF v this] show "handle_view h' q = Some d" "array_of h' q = array_of h q" .
  qed
  have arr: "array_of h' p = ?n" by (simp add: array_of_def blocks)
  have img: "array_of h' ` dom V = array_of h ` dom V" using old(2) by (force simp: dom_def)
  have "array_blocks h' = insert ?n (array_blocks h)"
    using ok p(1) by (auto simp: array_blocks_def blocks heap_ok_def)
  moreover have "inj_on (array_of h') (dom V)" "?n \<notin> array_of h' ` dom V"
    using holds old(2) live [of ?n] img by (auto simp: holds_handles_def dom_def inj_on_def)
  moreover have "dom (V(p \<mapsto> c)) = insert p (dom V)" by simp
  ultimately have "inj_on (array_of h') (dom (V(p \<mapsto> c)))" "array_blocks h' = array_of h' ` dom (V(p \<mapsto> c))"
    using arr img holds by (simp_all add: holds_handles_def) (metis Diff_subset image_mono subsetD)
  moreover have "heap_ok h'" using ok p by (auto simp: heap_ok_def blocks)
  moreover have "q \<in> dom (V(p \<mapsto> c))" if "hp_blocks h' q = Some (Container d rp)" for q d rp
    using that holds by (auto simp: blocks holds_handles_def split: if_splits)
  moreover have "handle_view h' q = Some d" if "(V(p \<mapsto> c)) q = Some d" for q d
    using that old(1) adds_container_view [OF adds] by (auto split: if_splits)
  ultimately show "holds_handles h' (V(p \<mapsto> c))" using fin by (simp add: holds_handles_def)
qed

lemma close_holds:
  assumes holds: "holds_handles h V" and p: "V p = Some c"
  obtains h' where "erf_close (Some p) h = Some h'" "holds_handles h' (V(p := None))"
proof -
  let ?r = "array_of h p"
  from holds p have v: "handle_view h p = Some c" by (simp add: holds_handles_def)
  then obtain c0 rs where b: "hp_blocks h p = Some (Container c0 ?r)" "hp_blocks h ?r = Some (Resources rs)"
    by (rule handle_view_blocks) blast
  have ne: "p \<noteq> ?r" using b by auto
  let ?h = "h\<lparr>hp_blocks := (hp_blocks h)(?r := None, p := None)\<rparr>"
  have run: "erf_close (Some p) h = Some ?h" using b ne by (simp add: erf_close_def heap_free_def)
  have inj: "inj_on (array_of h) (dom V)" and eq: "array_blocks h = array_of h ` dom V"
    using holds by (auto simp: holds_handles_def)
  have old: "handle_view ?h q = Some d" "array_of ?h q = array_of h q" "array_of h q \<noteq> ?r"
    if "V q = Some d" "q \<noteq> p" for q d
  proof -
    have w: "handle_view h q = Some d" using holds that(1) by (simp add: holds_handles_def)
    then obtain c1 rs1 where "hp_blocks h q = Some (Container c1 (array_of h q))"
      "hp_blocks h (array_of h q) = Some (Resources rs1)" by (rule handle_view_blocks) blast
    moreover show "array_of h q \<noteq> ?r" using inj that p by (auto dest: inj_onD)
    ultimately have "hp_blocks ?h q = hp_blocks h q" "hp_blocks ?h (array_of h q) = hp_blocks h (array_of h q)"
      using that(2) b by auto
    from handle_view_eqI [OF w this] show "handle_view ?h q = Some d" "array_of ?h q = array_of h q" .
  qed
  have img: "array_of ?h ` (dom V - {p}) = array_of h ` (dom V - {p})" using old(2) by (force simp: dom_def)
  have "array_blocks ?h = array_blocks h - {?r}" using b by (auto simp: array_blocks_def)
  also have "\<dots> = array_of h ` (dom V - {p})" using eq inj p by (auto simp: inj_on_def)
  finally have arrays: "array_blocks ?h = array_of ?h ` (dom V - {p})" using img by simp
  have "inj_on (array_of ?h) (dom V - {p})" using inj old(2) by (auto simp: inj_on_def dom_def)
  moreover have "q \<in> dom V - {p}" if "hp_blocks ?h q = Some (Container d rp)" for q d rp
    using that holds by (auto simp: holds_handles_def split: if_splits)
  moreover have "heap_ok ?h" using holds by (auto simp: holds_handles_def heap_ok_def)
  moreover have "\<forall>q d. (V(p := None)) q = Some d \<longrightarrow> handle_view ?h q = Some d" using old(1) by auto
  ultimately have "holds_handles ?h (V(p := None))"
    using arrays holds unfolding holds_handles_def dom_fun_upd by simp
  then show thesis using run that by blast
qed

lemma close_closed:
  assumes "holds_handles h V" and "V p = None"
  shows "erf_close (Some p) h = None"
proof -
  have "hp_blocks h p \<noteq> Some (Container c rp)" for c rp
    using holds_container [OF assms(1)] assms(2) by fastforce
  then show ?thesis by (simp add: erf_close_def split: option.split block.split)
qed

section \<open>A program and its handles\<close>

text \<open>
  The heap, the thread's last error and, for the statements only, the memory each open handle was
  opened on. A program opens memory it can read to the size it passes, closes handles, and looks
  resources up through live ones.
\<close>

record handle_state =
  hs_heap :: heap
  hs_open :: "nat \<rightharpoonup> memory \<times> u64"
  hs_error :: ERFError

definition handle_start :: handle_state where
  "handle_start = \<lparr>hs_heap = \<lparr>hp_next = 0, hp_blocks = Map.empty\<rparr>, hs_open = Map.empty, hs_error = ERF_OK\<rparr>"

definition handle_container :: "heap \<Rightarrow> nat option \<Rightarrow> ERFContainer option option" where
  "handle_container h p = (case p of None \<Rightarrow> Some None | Some a \<Rightarrow> map_option Some (handle_view h a))"

datatype handle_call =
  OpenMemory "memory option" u64 | Close "nat option" | FindIn "nat option" "string option"
  | FindIdIn "nat option" u32

inductive handle_step :: "handle_state \<Rightarrow> handle_call \<Rightarrow> handle_state \<Rightarrow> bool" where
  open_fails: "erf_open_handle base sz (hs_heap s) (hs_error s) = Some (None, h, e)
    \<Longrightarrow> (case base of None \<Rightarrow> True | Some b \<Rightarrow> unat sz \<le> length b)
    \<Longrightarrow> handle_step s (OpenMemory base sz) (s\<lparr>hs_heap := h, hs_error := e\<rparr>)"
| open_succeeds: "erf_open_handle (Some b) sz (hs_heap s) (hs_error s) = Some (Some p, h, e)
    \<Longrightarrow> unat sz \<le> length b
    \<Longrightarrow> handle_step s (OpenMemory (Some b) sz)
          (s\<lparr>hs_heap := h, hs_open := (hs_open s)(p \<mapsto> (b, sz)), hs_error := e\<rparr>)"
| close_null: "handle_step s (Close None) s"
| close_handle: "erf_close (Some p) (hs_heap s) = Some h
    \<Longrightarrow> handle_step s (Close (Some p)) (s\<lparr>hs_heap := h, hs_open := (hs_open s)(p := None)\<rparr>)"
| find_name: "handle_container (hs_heap s) p = Some c \<Longrightarrow> erf_find_in c name (hs_error s) = Some (r, e)
    \<Longrightarrow> handle_step s (FindIn p name) (s\<lparr>hs_error := e\<rparr>)"
| find_id: "handle_container (hs_heap s) p = Some c \<Longrightarrow> erf_find_id_in c i (hs_error s) = (r, e)
    \<Longrightarrow> handle_step s (FindIdIn p i) (s\<lparr>hs_error := e\<rparr>)"

inductive_cases open_stepE: "handle_step s (OpenMemory base sz) s'"
inductive_cases close_stepE: "handle_step s (Close p) s'"

inductive handle_reachable :: "handle_call list \<Rightarrow> handle_state \<Rightarrow> bool" where
  handles_start: "handle_reachable [] handle_start"
| handles_step: "handle_reachable calls s \<Longrightarrow> handle_step s call s' \<Longrightarrow> handle_reachable (calls @ [call]) s'"

definition open_views :: "(nat \<rightharpoonup> memory \<times> u64) \<Rightarrow> nat \<rightharpoonup> ERFContainer" where
  "open_views opens = (\<lambda>p. map_option (\<lambda>(b, sz). opened b sz) (opens p))"

definition handle_inv :: "handle_state \<Rightarrow> bool" where
  "handle_inv s \<longleftrightarrow> holds_handles (hs_heap s) (open_views (hs_open s))
     \<and> (\<forall>p b sz. hs_open s p = Some (b, sz) \<longrightarrow> unat sz \<le> length b \<and> erf_valid b (unat sz))"

lemma open_views_upd [simp]:
  "open_views (opens(p \<mapsto> (b, sz))) = (open_views opens)(p \<mapsto> opened b sz)"
  "open_views (opens(p := None)) = (open_views opens)(p := None)"
  by (auto simp: open_views_def)

lemma dom_open_views [simp]: "dom (open_views opens) = dom opens"
  by (auto simp: open_views_def dom_def)

lemma holds_heap_cong:
  assumes "holds_handles h V" and "hp_blocks h' = hp_blocks h" and "hp_next h \<le> hp_next h'"
  shows "holds_handles h' V"
proof -
  have "handle_view h' = handle_view h" "array_of h' = array_of h"
    unfolding handle_view_def [abs_def] array_of_def [abs_def] assms(2) by simp_all
  moreover have "array_blocks h' = array_blocks h" by (simp add: array_blocks_def assms(2))
  moreover have "heap_ok h \<Longrightarrow> heap_ok h'" using assms(2,3) by (simp add: heap_ok_def)
  ultimately show ?thesis using assms(1,2) by (simp add: holds_handles_def)
qed

text \<open>An open that fails changes no block; one that succeeds is a success of the model on values.\<close>

lemma open_handle_fails:
  assumes "heap_ok h" and "erf_open_handle base sz h e = Some (None, h', e')"
  shows "hp_blocks h' = hp_blocks h \<and> hp_next h \<le> hp_next h' \<and> erf_open_memory base sz e = Some (None, e')"
  using erf_open_handle_spec [OF assms(1), of base sz e] assms(2)
  by (auto split: option.splits)

lemma open_handle_succeeds:
  assumes "heap_ok h" and "erf_open_handle base sz h e = Some (Some p, h', e')"
  obtains c where "erf_open_memory base sz e = Some (Some c, e')" "adds_container h c p h'"
  using erf_open_handle_spec [OF assms(1), of base sz e] assms(2)
  by (auto split: option.splits)

lemma handle_step_inv:
  assumes "handle_step s call s'" and "handle_inv s"
  shows "handle_inv s'"
  using assms
proof (induction rule: handle_step.induct)
  case (open_fails base sz s h e)
  then have "heap_ok (hs_heap s)" by (simp add: handle_inv_def holds_handles_def)
  from open_handle_fails [OF this open_fails(1)] open_fails(3) show ?case
    by (auto simp: handle_inv_def intro: holds_heap_cong)
next
  case (open_succeeds b sz s p h e)
  then have ok: "heap_ok (hs_heap s)" by (simp add: handle_inv_def holds_handles_def)
  from open_handle_succeeds [OF ok open_succeeds(1)] obtain c where
    "erf_open_memory (Some b) sz (hs_error s) = Some (Some c, e)" and adds: "adds_container (hs_heap s) c p h" .
  then have v: "erf_valid b (unat sz)" "c = opened b sz"
    using erf_open_memory_spec [OF open_succeeds(2)] by (auto split: if_splits)
  from open_succeeds(3) have "holds_handles (hs_heap s) (open_views (hs_open s))" by (simp add: handle_inv_def)
  from open_holds(1) [OF this adds] v open_succeeds(2,3) show ?case by (simp add: handle_inv_def)
next
  case (close_handle p s h)
  from close_handle(2) have holds: "holds_handles (hs_heap s) (open_views (hs_open s))"
    by (simp add: handle_inv_def)
  show ?case
  proof (cases "open_views (hs_open s) p")
    case None
    then show ?thesis using close_closed [OF holds] close_handle(1) by simp
  next
    case (Some c)
    from close_holds [OF holds this] close_handle show ?thesis by (auto simp: handle_inv_def)
  qed
qed (simp_all add: handle_inv_def)

lemma handle_reachable_inv: "handle_reachable calls s \<Longrightarrow> handle_inv s"
proof (induction rule: handle_reachable.induct)
  case handles_start
  then show ?case
    by (simp add: handle_inv_def handle_start_def holds_handles_def heap_ok_def open_views_def array_blocks_def
        dom_def)
next
  case (handles_step calls s call s')
  then show ?case using handle_step_inv by blast
qed

section \<open>Properties\<close>

text \<open>
  C17. Opening with the allocations of the code refines opening on values: the handle that is returned
  points to exactly the container the value model returns, with the same error code, and an open that
  fails, even after the array of resources has been allocated, leaves no block behind.
\<close>

theorem erf_open_handle_refines:
  assumes "heap_ok h"
  shows "map_option (\<lambda>(p, h', e'). (Option.bind p (handle_view h'), e')) (erf_open_handle base sz h e)
      = erf_open_memory base sz e
    \<and> (\<forall>h' e'. erf_open_handle base sz h e = Some (None, h', e') \<longrightarrow> hp_blocks h' = hp_blocks h)"
  using erf_open_handle_spec [OF assms, of base sz e]
  by (auto split: option.splits simp: adds_container_view)

theorem erf_open_handle_refines_witness:
  "map_option (\<lambda>(p, h', e'). (Option.bind p (handle_view h'), e'))
      (erf_open_handle (Some (tiny [97, 0] 0)) 290 (hs_heap handle_start) ERF_OK)
    = erf_open_memory (Some (tiny [97, 0] 0)) 290 ERF_OK"
  by (rule erf_open_handle_refines [THEN conjunct1]) (simp add: heap_ok_def handle_start_def)

text \<open>
  C16. In every state a program can reach, each open handle gives the container its memory was opened
  as, and the heap holds two blocks per open handle and nothing else; once every handle is closed
  no block is left.
\<close>

theorem handles_account_for_heap:
  assumes "handle_reachable calls s"
  shows "(\<forall>p b sz. hs_open s p = Some (b, sz) \<longrightarrow>
        erf_valid b (unat sz) \<and> handle_view (hs_heap s) p = Some (opened b sz))
    \<and> card (dom (hp_blocks (hs_heap s))) = 2 * card (dom (hs_open s))
    \<and> (hs_open s = Map.empty \<longrightarrow> hp_blocks (hs_heap s) = Map.empty)"
proof -
  have inv: "handle_inv s" by (rule handle_reachable_inv [OF assms])
  then have holds: "holds_handles (hs_heap s) (open_views (hs_open s))" by (simp add: handle_inv_def)
  have "dom (hp_blocks (hs_heap s)) = dom (hs_open s) \<union> array_of (hs_heap s) ` dom (hs_open s)"
    using holds_blocks(1) [OF holds] holds by (simp add: holds_handles_def)
  then have "hs_open s = Map.empty \<longrightarrow> hp_blocks (hs_heap s) = Map.empty" by (auto simp: dom_def)
  moreover have "handle_view (hs_heap s) p = Some (opened b sz)" if "hs_open s p = Some (b, sz)" for p b sz
    using holds that by (simp add: holds_handles_def open_views_def)
  ultimately show ?thesis using holds_card [OF holds] inv by (auto simp: handle_inv_def)
qed

text \<open>
  C23. Closing ends the life of a handle and of no other: in every reachable state \<open>erf_close\<close> is
  defined exactly for \<open>NULL\<close> and the open handles; it frees two blocks, every other handle still
  gives the same container, and closing or using the handle again has no defined result.
\<close>

theorem erf_close_ends_handle:
  assumes "handle_reachable calls s"
  shows "erf_close None (hs_heap s) = Some (hs_heap s)
    \<and> (erf_close (Some p) (hs_heap s) \<noteq> None \<longleftrightarrow> p \<in> dom (hs_open s))
    \<and> (\<forall>h. erf_close (Some p) (hs_heap s) = Some h \<longrightarrow>
        card (dom (hp_blocks h)) + 2 = card (dom (hp_blocks (hs_heap s)))
        \<and> (\<forall>q \<in> dom (hs_open s). q \<noteq> p \<longrightarrow> handle_view h q = handle_view (hs_heap s) q)
        \<and> erf_close (Some p) h = None \<and> handle_container h (Some p) = None)"
proof -
  let ?h = "hs_heap s" and ?V = "open_views (hs_open s)"
  have holds: "holds_handles ?h ?V" using handle_reachable_inv [OF assms] by (simp add: handle_inv_def)
  show ?thesis
  proof (cases "?V p")
    case None
    then have "p \<notin> dom (hs_open s)" by (metis domIff dom_open_views)
    then show ?thesis using close_closed [OF holds None] by (simp add: erf_close_def)
  next
    case (Some c)
    then have p: "p \<in> dom (hs_open s)" by (metis domI dom_open_views)
    from close_holds [OF holds Some] obtain h' where run: "erf_close (Some p) ?h = Some h'"
      and h': "holds_handles h' (?V(p := None))" .
    have fin: "finite (dom (hs_open s))" using holds by (simp add: holds_handles_def)
    have "card (dom (hp_blocks h')) + 2 = card (dom (hp_blocks ?h))"
      using holds_card [OF holds] holds_card [OF h'] card_Suc_Diff1 [OF fin p] by simp
    moreover have "handle_view h' q = handle_view ?h q" if "q \<in> dom (hs_open s)" "q \<noteq> p" for q
    proof -
      have "?V q \<noteq> None" using that(1) by (auto simp: open_views_def)
      then obtain d where "?V q = Some d" by blast
      then show ?thesis using that(2) holds h' by (simp add: holds_handles_def)
    qed
    moreover have "erf_close (Some p) h' = None" by (rule close_closed [OF h']) simp
    moreover have "handle_view h' p = None"
    proof (rule ccontr)
      assume "handle_view h' p \<noteq> None"
      then obtain d where "handle_view h' p = Some d" by blast
      then obtain c0 where "hp_blocks h' p = Some (Container c0 (array_of h' p))"
        by (rule handle_view_blocks) blast
      from holds_container [OF h' this] show False by simp
    qed
    ultimately show ?thesis using run p by (simp add: erf_close_def [of None] handle_container_def)
  qed
qed

text \<open>A program that opens the same memory twice and closes the first handle.\<close>

lemma tiny_opens:
  assumes "heap_ok h"
  obtains h' where "erf_open_handle (Some (tiny [97, 0] 0)) 290 h e = Some (Some (Suc (hp_next h)), h', ERF_OK)"
proof -
  have v: "erf_valid (tiny [97, 0] 0) (unat (290 :: u64))" using tiny_valid [of "[97, 0]" 0] by simp
  then have "erf_open_memory (Some (tiny [97, 0] 0)) 290 e = Some (Some (opened (tiny [97, 0] 0) 290), ERF_OK)"
    using erf_open_memory_spec [of 290 "tiny [97, 0] 0" e] verdict_ok by (simp add: length_tiny)
  then show thesis
    using erf_open_handle_spec [OF assms, of "Some (tiny [97, 0] 0)" 290 e] that
    by (auto simp: adds_container_def)
qed

lemma sample_handles:
  obtains s p q where
    "handle_reachable [OpenMemory (Some (tiny [97, 0] 0)) 290, OpenMemory (Some (tiny [97, 0] 0)) 290] s"
    "hs_open s = [p \<mapsto> (tiny [97, 0] 0, 290), q \<mapsto> (tiny [97, 0] 0, 290)]" "p \<noteq> q"
proof -
  let ?open = "OpenMemory (Some (tiny [97, 0] 0)) 290"
  have fits: "unat (290 :: u64) \<le> length (tiny [97, 0] 0)" by (simp add: length_tiny)
  have again: "\<exists>s'. handle_reachable (calls @ [?open]) s'
      \<and> hs_open s' = (hs_open s)(Suc (hp_next (hs_heap s)) \<mapsto> (tiny [97, 0] 0, 290))
      \<and> hp_next (hs_heap s) < hp_next (hs_heap s')"
    if r: "handle_reachable calls s" for calls s
  proof -
    have ok: "heap_ok (hs_heap s)" using handle_reachable_inv [OF r] by (simp add: handle_inv_def holds_handles_def)
    then obtain h where run: "erf_open_handle (Some (tiny [97, 0] 0)) 290 (hs_heap s) (hs_error s)
        = Some (Some (Suc (hp_next (hs_heap s))), h, ERF_OK)" by (rule tiny_opens)
    obtain c where "adds_container (hs_heap s) c (Suc (hp_next (hs_heap s))) h"
      by (rule open_handle_succeeds [OF ok run])
    then have "hp_next (hs_heap s) < hp_next h" by (auto simp: adds_container_def)
    with handles_step [OF r open_succeeds [OF run fits]] show ?thesis by fastforce
  qed
  from again [OF handles_start] obtain s1 where 1: "handle_reachable ([] @ [?open]) s1"
    "hs_open s1 = (hs_open handle_start)(Suc (hp_next (hs_heap handle_start)) \<mapsto> (tiny [97, 0] 0, 290))"
    "hp_next (hs_heap handle_start) < hp_next (hs_heap s1)" by blast
  from again [OF 1(1)] obtain s2 where "handle_reachable [?open, ?open] s2"
    "hs_open s2 = (hs_open s1)(Suc (hp_next (hs_heap s1)) \<mapsto> (tiny [97, 0] 0, 290))" by auto
  with 1 that show thesis by (simp add: handle_start_def)
qed

theorem handles_account_for_heap_witness:
  "\<exists>s p q. handle_reachable [OpenMemory (Some (tiny [97, 0] 0)) 290, OpenMemory (Some (tiny [97, 0] 0)) 290] s
    \<and> p \<noteq> q \<and> handle_view (hs_heap s) p = Some (opened (tiny [97, 0] 0) 290)
    \<and> handle_view (hs_heap s) q = Some (opened (tiny [97, 0] 0) 290)
    \<and> card (dom (hp_blocks (hs_heap s))) = 4"
proof -
  obtain s p q where s: "handle_reachable
      [OpenMemory (Some (tiny [97, 0] 0)) 290, OpenMemory (Some (tiny [97, 0] 0)) 290] s"
    "hs_open s = [p \<mapsto> (tiny [97, 0] 0, 290), q \<mapsto> (tiny [97, 0] 0, 290)]" "p \<noteq> q" by (rule sample_handles)
  note account = handles_account_for_heap [OF s(1)]
  have "hs_open s p = Some (tiny [97, 0] 0, 290)" "hs_open s q = Some (tiny [97, 0] 0, 290)"
    using s(2,3) by simp_all
  then have views: "handle_view (hs_heap s) p = Some (opened (tiny [97, 0] 0) 290)"
    "handle_view (hs_heap s) q = Some (opened (tiny [97, 0] 0) 290)" using account by blast+
  have "dom (hs_open s) = {p, q}" using s(2) by auto
  then have "card (dom (hp_blocks (hs_heap s))) = 4" using account s(3) by simp
  with s(1,3) views show ?thesis by (intro exI conjI)
qed

theorem erf_close_ends_handle_witness:
  "\<exists>s p q h. handle_reachable [OpenMemory (Some (tiny [97, 0] 0)) 290, OpenMemory (Some (tiny [97, 0] 0)) 290] s
    \<and> p \<noteq> q \<and> erf_close (Some p) (hs_heap s) = Some h \<and> erf_close (Some p) h = None
    \<and> handle_view h q = handle_view (hs_heap s) q"
proof -
  obtain s p q where s: "handle_reachable
      [OpenMemory (Some (tiny [97, 0] 0)) 290, OpenMemory (Some (tiny [97, 0] 0)) 290] s"
    "hs_open s = [p \<mapsto> (tiny [97, 0] 0, 290), q \<mapsto> (tiny [97, 0] 0, 290)]" "p \<noteq> q" by (rule sample_handles)
  have pq: "p \<in> dom (hs_open s)" "q \<in> dom (hs_open s)" using s(2,3) by simp_all
  note ends = erf_close_ends_handle [OF s(1), of p]
  from ends pq(1) obtain h where h: "erf_close (Some p) (hs_heap s) = Some h" by blast
  with ends pq(2) s(3) have "erf_close (Some p) h = None" "handle_view h q = handle_view (hs_heap s) q"
    by simp_all
  with s(1,3) h show ?thesis by (intro exI conjI)
qed

end
