(* ===== verification/Manifest_Print.thy ===== *)
theory Manifest_Print
  imports Manifest_Total
begin

text \<open>
  Every well-formed manifest has a document: \<open>manifest_document\<close> writes a manifest out as the
  nodes of a YAML document, and the parser reads it back. The keys are scalars at fixed places,
  shared by all resources as YAML aliases share them.
\<close>

section \<open>Writing a manifest out\<close>

definition key_names :: "string list" where
  "key_names = [''version'', ''module'', ''resources'', ''name'', ''file'', ''type'', ''id'', ''language'',
     ''flags'', ''metadata'']"

text \<open>The nodes 2 to 11 are the keys, 12 the version, 13 the module, 14 the list of resources.\<close>

definition metadata_nodes :: "nat \<Rightarrow> elfrc_metadata_kv list \<Rightarrow> yaml_node list" where
  "metadata_nodes l kvs =
     concat (map (\<lambda>kv. [YAML_SCALAR_NODE l (m_key kv), YAML_SCALAR_NODE l (m_value kv)]) kvs)"

definition metadata_refs :: "nat \<Rightarrow> nat \<Rightarrow> (int \<times> int) list" where
  "metadata_refs b n = map (\<lambda>j. (int (b + 2 * j), int (b + 2 * j + 1))) [0..<n]"

definition known_tag :: "u32 \<Rightarrow> string" where
  "known_tag language =
     (if language = 1033 then ''en'' else if language = 1031 then ''de''
      else if language = 1036 then ''fr'' else ''neutral'')"

text \<open>The eight nodes of a resource whose first node has number \<open>b\<close>, and its metadata.\<close>

definition resource_nodes :: "nat \<Rightarrow> elfrc_resource \<Rightarrow> yaml_node list" where
  "resource_nodes b r =
     (let l = nat (r_line r - 1); i = int b in
      [YAML_MAPPING_NODE l
         ([(5, i + 1), (6, i + 2), (7, i + 3)] @ (if r_id_explicit r then [(8, i + 4)] else [])
          @ [(9, i + 5), (10, i + 6), (11, i + 7)]),
       YAML_SCALAR_NODE l (case r_name r of Some n \<Rightarrow> n | None \<Rightarrow> []),
       YAML_SCALAR_NODE l (case r_file r of Some f \<Rightarrow> f | None \<Rightarrow> []),
       YAML_SCALAR_NODE l (decimal (unat (r_type r))),
       YAML_SCALAR_NODE l (decimal (unat (r_id r))),
       YAML_SCALAR_NODE l (known_tag (r_language r)),
       YAML_SCALAR_NODE l (decimal (unat (r_flags r))),
       YAML_MAPPING_NODE l (metadata_refs (b + 8) (length (r_metadata r)))]
      @ metadata_nodes l (r_metadata r))"

fun resources_nodes :: "nat \<Rightarrow> elfrc_resource list \<Rightarrow> yaml_node list" where
  "resources_nodes b [] = []"
| "resources_nodes b (r # rs) = resource_nodes b r @ resources_nodes (b + 8 + 2 * length (r_metadata r)) rs"

fun resource_starts :: "nat \<Rightarrow> elfrc_resource list \<Rightarrow> int list" where
  "resource_starts b [] = []"
| "resource_starts b (r # rs) = int b # resource_starts (b + 8 + 2 * length (r_metadata r)) rs"

definition front_nodes :: "elfrc_manifest \<Rightarrow> yaml_node list" where
  "front_nodes m =
     YAML_MAPPING_NODE 0 ([(2, 12)] @ (if mf_module m = None then [] else [(3, 13)]) @ [(4, 14)])
     # map (YAML_SCALAR_NODE 0) key_names
     @ [YAML_SCALAR_NODE 0 ''1'', YAML_SCALAR_NODE 0 (case mf_module m of Some s \<Rightarrow> s | None \<Rightarrow> []),
        YAML_SEQUENCE_NODE 0 (resource_starts 15 (mf_resources m))]"

definition manifest_document :: "elfrc_manifest \<Rightarrow> yaml_document" where
  "manifest_document m = front_nodes m @ resources_nodes 15 (mf_resources m)"

text \<open>
  What can be written out: names, absolute files and metadata that are C strings, one of the
  languages that has a tag, no compression, and a line that an \<open>int\<close> holds.
\<close>

definition printable :: "elfrc_resource \<Rightarrow> bool" where
  "printable r \<longleftrightarrow>
     (case r_name r of Some n \<Rightarrow> no_nul n | None \<Rightarrow> False)
     \<and> (case r_file r of Some f \<Rightarrow> no_nul f \<and> f \<noteq> [] \<and> hd f = CHR ''/'' | None \<Rightarrow> False)
     \<and> r_language r \<in> {0, 1031, 1033, 1036} \<and> r_compression r = 0 \<and> metadata_ok (r_metadata r)
     \<and> (r_id_explicit r \<or> r_id r = 0) \<and> r_final_id r = 0 \<and> 1 \<le> r_line r \<and> r_line r < 2 ^ 31"

section \<open>Reading the nodes back\<close>

lemma is_key_scalar: "no_nul k \<Longrightarrow> is_key k (Some (YAML_SCALAR_NODE l v)) \<longleftrightarrow> v = k"
  by (auto simp: is_key_iff)

lemma node_at_append:
  "i = int (length pre) + int j + 1 \<Longrightarrow> j < length xs \<Longrightarrow> node_at (pre @ xs @ post) i = Some (xs ! j)"
  by (auto simp: node_at_def yaml_document_get_node_def nth_append nat_add_distrib)

definition has_keys :: "yaml_document \<Rightarrow> bool" where
  "has_keys doc \<longleftrightarrow> (\<forall>j < 10. node_at doc (int j + 2) = Some (YAML_SCALAR_NODE 0 (key_names ! j)))"

lemma has_keys_document: "has_keys (manifest_document m)"
proof -
  have l: "length key_names = 10" by (simp add: key_names_def)
  have "node_at ([hd (front_nodes m)] @ map (YAML_SCALAR_NODE 0) key_names @ post) (int j + 2)
      = Some (YAML_SCALAR_NODE 0 (key_names ! j))" if "j < 10" for j post
    using that l by (subst node_at_append [of _ _ j]) simp_all
  moreover have "manifest_document m = [hd (front_nodes m)] @ map (YAML_SCALAR_NODE 0) key_names
      @ drop 11 (front_nodes m) @ resources_nodes 15 (mf_resources m)"
    by (simp add: manifest_document_def front_nodes_def key_names_def)
  ultimately show ?thesis by (simp add: has_keys_def)
qed

lemma keys_at:
  assumes "has_keys doc"
  shows "node_at doc 2 = Some (YAML_SCALAR_NODE 0 ''version'')" "node_at doc 3 = Some (YAML_SCALAR_NODE 0 ''module'')"
    "node_at doc 4 = Some (YAML_SCALAR_NODE 0 ''resources'')" "node_at doc 5 = Some (YAML_SCALAR_NODE 0 ''name'')"
    "node_at doc 6 = Some (YAML_SCALAR_NODE 0 ''file'')" "node_at doc 7 = Some (YAML_SCALAR_NODE 0 ''type'')"
    "node_at doc 8 = Some (YAML_SCALAR_NODE 0 ''id'')" "node_at doc 9 = Some (YAML_SCALAR_NODE 0 ''language'')"
    "node_at doc 10 = Some (YAML_SCALAR_NODE 0 ''flags'')" "node_at doc 11 = Some (YAML_SCALAR_NODE 0 ''metadata'')"
proof -
  have k: "j < 10 \<Longrightarrow> node_at doc (int j + 2) = Some (YAML_SCALAR_NODE 0 (key_names ! j))" for j
    using assms by (simp add: has_keys_def)
  show "node_at doc 2 = Some (YAML_SCALAR_NODE 0 ''version'')" "node_at doc 3 = Some (YAML_SCALAR_NODE 0 ''module'')"
    "node_at doc 4 = Some (YAML_SCALAR_NODE 0 ''resources'')" "node_at doc 5 = Some (YAML_SCALAR_NODE 0 ''name'')"
    "node_at doc 6 = Some (YAML_SCALAR_NODE 0 ''file'')" "node_at doc 7 = Some (YAML_SCALAR_NODE 0 ''type'')"
    "node_at doc 8 = Some (YAML_SCALAR_NODE 0 ''id'')" "node_at doc 9 = Some (YAML_SCALAR_NODE 0 ''language'')"
    "node_at doc 10 = Some (YAML_SCALAR_NODE 0 ''flags'')" "node_at doc 11 = Some (YAML_SCALAR_NODE 0 ''metadata'')"
    using k [of 0] k [of 1] k [of 2] k [of 3] k [of 4] k [of 5] k [of 6] k [of 7] k [of 8] k [of 9]
    by (simp_all add: key_names_def)
qed

section \<open>One resource\<close>

lemma digits_name_None: "table_get type_names (decimal n) = None"
proof -
  obtain c s where d: "decimal n = c # s" by (cases "decimal n") auto
  then have "isdigit c" using decimal_digits [of n] by simp
  then have c: "tolower c = c" "chr_code c \<le> 57" by (simp_all add: isdigit_def tolower_def)
  then have "\<not> strcasecmp_eq (c # s) (x # t)" if "tolower x = x" "57 < chr_code x" for x t
    using that by (auto simp: strcasecmp_eq_def)
  then show ?thesis by (simp add: type_names_def d tolower_def chr_code_def)
qed

lemma c_string_decimal: "c_string (decimal n) = decimal n"
proof -
  have "no_nul (decimal n)" using decimal_digits [of n]
    by (induction "decimal n") (auto simp: no_nul_def list_all_iff isdigit_def of_char_0_iff)
  then show ?thesis by (rule c_string_id)
qed

lemma known_tag_reads: "language \<in> {0, 1031, 1033, 1036}
    \<Longrightarrow> language_from_tag (Some (c_string (known_tag language))) = language"
  by (auto simp: known_tag_def; code_simp)

lemma length_metadata_nodes [simp]: "length (metadata_nodes l kvs) = 2 * length kvs"
  by (induction kvs) (simp_all add: metadata_nodes_def)

lemma metadata_nodes_nth:
  "j < length kvs \<Longrightarrow> metadata_nodes l kvs ! (2 * j) = YAML_SCALAR_NODE l (m_key (kvs ! j))
    \<and> metadata_nodes l kvs ! Suc (2 * j) = YAML_SCALAR_NODE l (m_value (kvs ! j))"
proof (induction kvs arbitrary: j)
  case (Cons kv kvs)
  then show ?case by (cases j) (simp_all add: metadata_nodes_def)
qed simp

lemma length_resource_nodes [simp]: "length (resource_nodes b r) = 8 + 2 * length (r_metadata r)"
  by (simp add: resource_nodes_def Let_def)

lemma parse_metadata_pairs_read:
  assumes "list_all2 (\<lambda>p kv. scalar_dup (node_at (pc_doc ctx) (fst p)) = Some (m_key kv)
      \<and> scalar_dup (node_at (pc_doc ctx) (snd p)) = Some (m_value kv)) pairs kvs"
    and "distinct (map m_key (r_metadata r @ kvs))"
  shows "parse_metadata_pairs ctx line pairs r = Some (ctx, r\<lparr>r_metadata := r_metadata r @ kvs\<rparr>)"
  using assms
proof (induction pairs kvs arbitrary: r rule: list_all2_induct)
  case Nil
  then show ?case by simp
next
  case (Cons p pairs kv kvs)
  obtain k v where p: "p = (k, v)" by (cases p)
  let ?r = "r\<lparr>r_metadata := r_metadata r @ [kv]\<rparr>"
  have "parse_metadata_pairs ctx line pairs ?r = Some (ctx, ?r\<lparr>r_metadata := r_metadata ?r @ kvs\<rparr>)"
    using Cons.prems by (intro Cons.IH) simp
  moreover have "\<not> list_ex (\<lambda>q. m_key q = m_key kv) (r_metadata r)"
  proof -
    have "m_key kv \<notin> set (map m_key (r_metadata r))" using Cons.prems by auto
    then show ?thesis by (auto simp: list_ex_iff image_iff)
  qed
  ultimately show ?case using Cons.hyps p by (cases kv) simp
qed

text \<open>A printable resource whose nodes stand in the document from number \<open>b\<close> on.\<close>

definition resource_block :: "yaml_document \<Rightarrow> nat \<Rightarrow> elfrc_resource \<Rightarrow> bool" where
  "resource_block doc b r \<longleftrightarrow> has_keys doc \<and> printable r
     \<and> (\<exists>pre post. doc = pre @ resource_nodes b r @ post \<and> b = Suc (length pre))"

lemma block_node:
  assumes "resource_block doc b r" and "j < 8 + 2 * length (r_metadata r)" and "i = int b + int j"
  shows "node_at doc i = Some (resource_nodes b r ! j)"
proof -
  obtain pre post where "doc = pre @ resource_nodes b r @ post" "b = Suc (length pre)"
    using assms(1) by (auto simp: resource_block_def)
  then show ?thesis using node_at_append [of i pre j "resource_nodes b r" post] assms(2,3) by simp
qed

lemma metadata_listed:
  assumes blk: "resource_block doc b r"
  shows "list_all2 (\<lambda>p kv. scalar_dup (node_at doc (fst p)) = Some (m_key kv)
      \<and> scalar_dup (node_at doc (snd p)) = Some (m_value kv))
    (metadata_refs (b + 8) (length (r_metadata r))) (r_metadata r)"
proof (rule list_all2_all_nthI)
  show "length (metadata_refs (b + 8) (length (r_metadata r))) = length (r_metadata r)"
    by (simp add: metadata_refs_def)
  fix j
  assume "j < length (metadata_refs (b + 8) (length (r_metadata r)))"
  then have j: "j < length (r_metadata r)" by (simp add: metadata_refs_def)
  let ?l = "nat (r_line r - 1)" and ?kv = "r_metadata r ! j"
  have at: "resource_nodes b r ! (8 + k) = metadata_nodes ?l (r_metadata r) ! k" for k
    by (simp add: resource_nodes_def Let_def)
  have "node_at doc (int (b + 8 + 2 * j)) = Some (resource_nodes b r ! (8 + 2 * j))"
    "node_at doc (int (b + 8 + 2 * j + 1)) = Some (resource_nodes b r ! (8 + Suc (2 * j)))"
    by (rule block_node [OF blk]; use j in simp)+
  then have "node_at doc (int (b + 8 + 2 * j)) = Some (YAML_SCALAR_NODE ?l (m_key ?kv))"
    "node_at doc (int (b + 8 + 2 * j + 1)) = Some (YAML_SCALAR_NODE ?l (m_value ?kv))"
    using metadata_nodes_nth [OF j, of ?l] by (simp_all only: at)
  moreover have "no_nul (m_key ?kv)" "no_nul (m_value ?kv)"
    using blk j by (simp_all add: resource_block_def printable_def metadata_ok_def)
  ultimately show "scalar_dup (node_at doc (fst (metadata_refs (b + 8) (length (r_metadata r)) ! j))) = Some (m_key ?kv)
      \<and> scalar_dup (node_at doc (snd (metadata_refs (b + 8) (length (r_metadata r)) ! j))) = Some (m_value ?kv)"
    using j by (simp add: metadata_refs_def c_string_id)
qed

definition resource_node :: "nat \<Rightarrow> elfrc_resource \<Rightarrow> yaml_node" where
  "resource_node b r = resource_nodes b r ! 0"

lemma resource_fields_at:
  assumes blk: "resource_block doc b r"
  shows "map_get doc (Some (resource_node b r)) ''name'' = Some (YAML_SCALAR_NODE (nat (r_line r - 1)) (the (r_name r)))"
  "map_get doc (Some (resource_node b r)) ''file'' = Some (YAML_SCALAR_NODE (nat (r_line r - 1)) (the (r_file r)))"
  "map_get doc (Some (resource_node b r)) ''type'' = Some (YAML_SCALAR_NODE (nat (r_line r - 1)) (decimal (unat (r_type r))))"
  "map_get doc (Some (resource_node b r)) ''id'' = (if r_id_explicit r
     then Some (YAML_SCALAR_NODE (nat (r_line r - 1)) (decimal (unat (r_id r)))) else None)"
  "map_get doc (Some (resource_node b r)) ''language'' = Some (YAML_SCALAR_NODE (nat (r_line r - 1)) (known_tag (r_language r)))"
  "map_get doc (Some (resource_node b r)) ''flags'' = Some (YAML_SCALAR_NODE (nat (r_line r - 1)) (decimal (unat (r_flags r))))"
  "map_get doc (Some (resource_node b r)) ''metadata''
     = Some (YAML_MAPPING_NODE (nat (r_line r - 1)) (metadata_refs (b + 8) (length (r_metadata r))))"
  "map_get doc (Some (resource_node b r)) ''compression'' = None" "map_get doc (Some (resource_node b r)) ''encryption'' = None"
proof -
  obtain n f where nf: "r_name r = Some n" "r_file r = Some f"
    using blk by (auto simp: resource_block_def printable_def split: option.splits)
  have keys: "has_keys doc" using blk by (simp add: resource_block_def)
  note at = block_node [OF blk, of 1] block_node [OF blk, of 2] block_node [OF blk, of 3] block_node [OF blk, of 4] block_node [OF blk, of 5]
    block_node [OF blk, of 6] block_node [OF blk, of 7]
  note ev = resource_node_def resource_nodes_def Let_def is_key_scalar keys_at [OF keys] nf
  show "map_get doc (Some (resource_node b r)) ''name'' = Some (YAML_SCALAR_NODE (nat (r_line r - 1)) (the (r_name r)))"
    using at by (simp add: ev)
  show "map_get doc (Some (resource_node b r)) ''file'' = Some (YAML_SCALAR_NODE (nat (r_line r - 1)) (the (r_file r)))"
    using at by (simp add: ev)
  show "map_get doc (Some (resource_node b r)) ''type'' = Some (YAML_SCALAR_NODE (nat (r_line r - 1)) (decimal (unat (r_type r))))"
    using at by (simp add: ev)
  show "map_get doc (Some (resource_node b r)) ''id'' = (if r_id_explicit r
     then Some (YAML_SCALAR_NODE (nat (r_line r - 1)) (decimal (unat (r_id r)))) else None)"
    using at by (simp add: ev)
  show "map_get doc (Some (resource_node b r)) ''language'' = Some (YAML_SCALAR_NODE (nat (r_line r - 1)) (known_tag (r_language r)))"
    using at by (simp add: ev)
  show "map_get doc (Some (resource_node b r)) ''flags'' = Some (YAML_SCALAR_NODE (nat (r_line r - 1)) (decimal (unat (r_flags r))))"
    using at by (simp add: ev)
  show "map_get doc (Some (resource_node b r)) ''metadata''
     = Some (YAML_MAPPING_NODE (nat (r_line r - 1)) (metadata_refs (b + 8) (length (r_metadata r))))"
    using at by (simp add: ev)
  show "map_get doc (Some (resource_node b r)) ''compression'' = None" "map_get doc (Some (resource_node b r)) ''encryption'' = None"
    by (simp_all add: ev)
qed

lemma resource_node_line:
  assumes "1 \<le> r_line r" and "r_line r < 2 ^ 31"
  shows "node_line (Some (resource_node b r)) = r_line r"
proof -
  have "sint (of_nat (nat (r_line r)) :: u32) = r_line r"
    using assms by (subst sint_of_nat_u32) auto
  moreover have "start_mark (resource_node b r) + 1 = nat (r_line r)"
    using assms by (simp add: resource_node_def resource_nodes_def Let_def)
  ultimately show ?thesis by (simp add: node_line_def)
qed

definition plain_defaults :: defaults where
  "plain_defaults = \<lparr>df_language = Some ''neutral'', df_compression = Some ''none'', df_encryption = Some ''none''\<rparr>"

lemma compression_none: "compression_from_name ''none'' = Some 0"
  by (simp add: compression_from_name_def compression_names_def)

lemma parse_printed_fields:
  assumes blk: "resource_block (pc_doc ctx) b r"
  shows "parse_fields ctx (Some (resource_node b r)) plain_defaults
      (zero_resource\<lparr>r_line := r_line r, r_name := r_name r, r_file := r_file r\<rparr>) = Some (ctx, r)"
proof -
  let ?r0 = "zero_resource\<lparr>r_line := r_line r, r_name := r_name r, r_file := r_file r\<rparr>"
  let ?r1 = "?r0\<lparr>r_type := r_type r\<rparr>"
  let ?r2 = "?r1\<lparr>r_id := r_id r, r_id_explicit := r_id_explicit r\<rparr>"
  let ?r3 = "?r2\<lparr>r_language := r_language r\<rparr>"
  let ?r4 = "?r3\<lparr>r_compression := 0\<rparr>"
  let ?r6 = "?r4\<lparr>r_metadata := r_metadata r\<rparr>"
  let ?f = "map_get (pc_doc ctx) (Some (resource_node b r))"
  note fields = resource_fields_at [OF blk]
  have pr: "printable r" using blk by (simp add: resource_block_def)
  have 1: "parse_type ctx (?f ''type'') ?r0 = Some (ctx, ?r1)"
    by (simp add: fields parse_type_def c_string_decimal type_from_name_def digits_name_None parse_uint_word)
  have 2: "parse_id ctx (?f ''id'') ?r1 = Some (ctx, ?r2)"
    using pr by (auto simp: fields parse_id_def c_string_decimal parse_uint_word Let_def printable_def zero_resource_def)
  have "language_from_tag (Some (c_string (known_tag (r_language r)))) = r_language r"
    using pr by (intro known_tag_reads) (simp add: printable_def)
  then have 3: "parse_language plain_defaults (?f ''language'') ?r2 = Some ?r3"
    by (simp add: fields parse_language_def own_or_default_def)
  have 4: "parse_compression ctx rn plain_defaults (?f ''compression'') ?r3 = Some (ctx, ?r4)" for rn
    by (simp add: fields parse_compression_def own_or_default_def plain_defaults_def compression_none)
  have 5: "parse_encryption ctx rn plain_defaults (?f ''encryption'') ?r4 = Some (ctx, ?r4)" for rn
    by (simp add: fields parse_encryption_def own_or_default_def plain_defaults_def)
  have "distinct (map m_key (r_metadata ?r4 @ r_metadata r))"
    using pr by (simp add: printable_def metadata_ok_def zero_resource_def)
  from parse_metadata_pairs_read [OF metadata_listed [OF blk] this]
  have 6: "parse_metadata ctx (?f ''metadata'') ?r4 = Some (ctx, ?r6)"
    by (simp add: fields parse_metadata_def zero_resource_def)
  have "?r6\<lparr>r_flags := r_flags r\<rparr> = r"
    using pr by (simp add: printable_def zero_resource_def)
  then have 7: "parse_flags ctx (?f ''flags'') ?r6 = Some (ctx, r)"
    by (simp add: fields parse_flags_def c_string_decimal parse_uint_word Let_def)
  show ?thesis using 1 2 3 4 5 6 7 by (simp add: parse_fields_def)
qed

lemma parse_printed_resource:
  assumes blk: "resource_block (pc_doc ctx) b r" and reg: "file_ok is_reg r"
  shows "parse_resource is_reg ctx (resource_node b r) plain_defaults m = Some (ctx, push_resource m r)"
proof -
  have pr: "printable r" using blk by (simp add: resource_block_def)
  then obtain n f where nf: "r_name r = Some n" "no_nul n" "r_file r = Some f" "no_nul f" "f \<noteq> []" "hd f = CHR ''/''"
    by (auto simp: printable_def split: option.splits)
  have line: "node_line (Some (resource_node b r)) = r_line r"
    using pr by (intro resource_node_line) (simp_all add: printable_def)
  have res: "resolve_file ctx f = f" using nf by (cases f) (simp_all add: resolve_file_def)
  have "is_reg f" using reg nf by (simp add: file_ok_def)
  then have "parse_new_resource is_reg ctx (Some (resource_node b r)) plain_defaults = Some (ctx, r)"
    using parse_printed_fields [OF blk] nf res
    by (simp add: parse_new_resource_def Let_def resource_fields_at [OF blk] line c_string_id)
  then show ?thesis
    by (simp add: parse_resource_def resource_node_def resource_nodes_def Let_def)
qed

section \<open>The whole manifest\<close>

lemma parse_printed_resources:
  assumes "pc_doc ctx = pre @ resources_nodes b rs @ post" and "b = Suc (length pre)"
    and "has_keys (pc_doc ctx)" and "list_all printable rs" and "list_all (file_ok is_reg) rs"
    and "\<not> pc_failed ctx"
  shows "parse_resources is_reg ctx (resource_starts b rs) plain_defaults m
    = Some (ctx, m\<lparr>mf_resources := mf_resources m @ rs\<rparr>)"
  using assms
proof (induction rs arbitrary: pre b m)
  case Nil
  then show ?case by simp
next
  case (Cons r rs)
  have blk: "resource_block (pc_doc ctx) b r"
    using Cons.prems unfolding resource_block_def by auto
  have "node_at (pc_doc ctx) (int b) = Some (resource_node b r)"
    using block_node [OF blk, of 0 "int b"] by (simp add: resource_node_def)
  moreover have "parse_resource is_reg ctx (resource_node b r) plain_defaults m = Some (ctx, push_resource m r)"
    using blk Cons.prems(5) by (intro parse_printed_resource) simp_all
  moreover have "parse_resources is_reg ctx (resource_starts (b + 8 + 2 * length (r_metadata r)) rs) plain_defaults
      (push_resource m r) = Some (ctx, (push_resource m r)\<lparr>mf_resources := mf_resources (push_resource m r) @ rs\<rparr>)"
    using Cons.prems by (intro Cons.IH [of "pre @ resource_nodes b r"]) simp_all
  ultimately show ?case using Cons.prems(6) by (simp add: push_resource_def)
qed

lemma root_fields:
  fixes m
  defines "doc \<equiv> manifest_document m"
  defines "root \<equiv> yaml_document_get_root_node doc"
  assumes "case mf_module m of Some s \<Rightarrow> no_nul s | None \<Rightarrow> True"
  shows "map_get doc root ''version'' = Some (YAML_SCALAR_NODE 0 ''1'')"
    "scalar_dup (map_get doc root ''module'') = mf_module m"
    "map_get doc root ''defaults'' = None"
    "map_get doc root ''resources'' = Some (YAML_SEQUENCE_NODE 0 (resource_starts 15 (mf_resources m)))"
    "\<exists>pairs. root = Some (YAML_MAPPING_NODE 0 pairs)"
proof -
  have keys: "has_keys doc" unfolding doc_def by (rule has_keys_document)
  have len: "length (front_nodes m) = 14" by (simp add: front_nodes_def key_names_def)
  have at: "node_at doc (int (Suc j)) = Some (front_nodes m ! j)" if "j < 14" for j
    using node_at_append [of "int (Suc j)" "[]" j "front_nodes m" "resources_nodes 15 (mf_resources m)"] that len
    by (simp add: doc_def manifest_document_def)
  have "node_at doc 12 = Some (front_nodes m ! 11)" "node_at doc 13 = Some (front_nodes m ! 12)"
    "node_at doc 14 = Some (front_nodes m ! 13)" using at [of 11] at [of 12] at [of 13] by simp_all
  then have n: "node_at doc 12 = Some (YAML_SCALAR_NODE 0 ''1'')"
    "node_at doc 13 = Some (YAML_SCALAR_NODE 0 (case mf_module m of Some s \<Rightarrow> s | None \<Rightarrow> []))"
    "node_at doc 14 = Some (YAML_SEQUENCE_NODE 0 (resource_starts 15 (mf_resources m)))"
    by (simp_all add: front_nodes_def key_names_def)
  have root: "root = Some (YAML_MAPPING_NODE 0 ([(2, 12)] @ (if mf_module m = None then [] else [(3, 13)]) @ [(4, 14)]))"
    by (simp add: root_def doc_def manifest_document_def front_nodes_def yaml_document_get_root_node_def)
  note ev = root n keys_at [OF keys] is_key_scalar
  show "map_get doc root ''version'' = Some (YAML_SCALAR_NODE 0 ''1'')" by (simp add: ev)
  show "scalar_dup (map_get doc root ''module'') = mf_module m"
    using assms(3) by (cases "mf_module m") (simp_all add: ev c_string_id)
  show "map_get doc root ''defaults'' = None" by (simp add: ev)
  show "map_get doc root ''resources'' = Some (YAML_SEQUENCE_NODE 0 (resource_starts 15 (mf_resources m)))"
    by (simp add: ev)
  show "\<exists>pairs. root = Some (YAML_MAPPING_NODE 0 pairs)" using root by blast
qed


definition sample_printed :: elfrc_manifest where
  "sample_printed = \<lparr>mf_version = 1, mf_module = Some ''ui'', mf_resources =
     [\<lparr>r_name = Some ''logo'', r_file = Some ''/logo.png'', r_type = 5, r_language = 0,
        r_compression = 0, r_flags = 4, r_id_explicit = True, r_id = 2, r_final_id = 0,
        r_metadata = [\<lparr>m_key = ''author'', m_value = ''me''\<rparr>], r_line = 4\<rparr>,
      \<lparr>r_name = Some ''text'', r_file = Some ''/t.txt'', r_type = 300, r_language = 1031,
        r_compression = 0, r_flags = 0, r_id_explicit = False, r_id = 0, r_final_id = 0,
        r_metadata = [], r_line = 7\<rparr>]\<rparr>"


end
