(* ===== verification/Spec2Isabelle.thy ===== *)
theory Spec2Isabelle
  imports Pipeline Erf_Lookup Erf_Handles Manifest_Print
begin

text \<open>
  Verification of elfrc, the compiler of ERF resource containers, of libelfr, the library that reads
  them at run time, and of elfresdump, the tool that lists and extracts them.

  \<^bold>\<open>The program.\<close> \<open>elfrc\<close> (\<open>src/elfrc/main.c\<close>) reads a YAML manifest (\<open>manifest_yaml.c\<close>) into a list of
  resources, builds a resource container in memory (\<open>container_build.c\<close>: header, directory, string
  table, metadata, hash table, data) and writes it as the \<open>.resource\<close> section of a relocatable ELF
  object between two global symbols (\<open>elf_writer.c\<close>). A program linked with that object finds its
  resources through \<open>libelfr\<close> (\<open>erf_reader.c\<close>, explicit containers; \<open>erf_lookup.c\<close>, the default
  container behind the weak symbols). \<open>elfresdump\<close> (\<open>src/elfresdump/main.c\<close>) maps an object file, finds
  the section and uses \<open>libelfr\<close> on it. The parts share the on-disk format (\<open>include/elfr/erf_format.h\<close>),
  the growable buffer and the hash functions (\<open>src/common\<close>).

  \<^bold>\<open>How C is modelled.\<close> Integers have their C width as words and wrap where the code's wrap. Memory is
  a list of bytes, a pointer into it an offset; structures are encoded with the x86-64 layout. An
  execution without a defined result (a read or write outside memory, a dereferenced \<open>NULL\<close>, a double
  \<open>free\<close>, a loop that never ends) is \<open>None\<close>; \<open>Some\<close> carries what the code returns. Error codes and
  messages are ordinary values: \<open>Inl\<close> the message, \<open>Inr\<close> the result, or the \<open>ERFError\<close> left behind.
  The file system, the outputs that accept bytes, \<open>stat\<close>, \<open>mmap\<close> and the documents libyaml loads are
  parameters.

  \<^bold>\<open>The theories\<close>, from the bottom up:

  \<^item> \<open>Prelude\<close>, \<open>C_Text\<close>: memory, little-endian integers, C strings; character classes, comparison
    without case, \<open>strtol\<close>, \<open>strrchr\<close>, \<open>dirname\<close>, \<open>snprintf\<close>. \<open>Codec\<close> and \<open>Byte_Digest\<close> hold two interfaces
    as locales: a structure in memory (interpreted on the four ERF and three ELF structures), and a
    register updated byte by byte (interpreted on the CRC and both hashes).
  \<^item> \<open>Crc64\<close>, \<open>Fnv1a\<close>, \<open>Byte_Buf\<close>: \<open>src/common\<close>. The table-driven checksum equals the shift register and
    detects bursts; the buffer is a \<open>byte_sink\<close>, and its growth ends exactly up to \<open>2^63\<close> bytes.
  \<^item> \<open>Erf_Format\<close>, \<open>Elf_Format\<close>: the structures and constants of the two file formats.
  \<^item> \<open>Manifest_Types\<close>: \<open>manifest.h\<close>. \<open>Yaml_Nodes\<close>, \<open>Manifest_Yaml\<close>, \<open>Manifest_Ids\<close>, \<open>Manifest_Parse\<close>:
    \<open>manifest_yaml.c\<close>, from the nodes of a document to \<open>elfrc_manifest_parse\<close>; the state is \<open>parse_ctx\<close>
    with the first error. \<open>Manifest_Correct\<close>, \<open>Manifest_Properties\<close>: what a parsed manifest guarantees,
    the ids against a reference assignment, the form of errors. \<open>Manifest_Total\<close>: when the parser has a
    defined result. \<open>Manifest_Print\<close>: a printer the parser inverts.
  \<^item> \<open>Container_Build\<close>: \<open>container_build.c\<close>. \<open>Container_Strings\<close>, \<open>Hash_Index\<close>, \<open>Container_Data\<close>: its
    sections in closed form, the hash table of builder and reader as one \<open>name_index\<close>, the errors of
    reading files. \<open>Container_Layout\<close>: the abstract specification \<open>container_image\<close> of a container's
    bytes, which the builder implements.
  \<^item> \<open>Erf_Reader\<close>: \<open>erf_reader.c\<close> on values, \<open>erf_last_error\<close> as passed state. \<open>Erf_Open\<close>: opening decides
    the validity of a container, stated over natural numbers. \<open>Erf_Safety\<close>: lookups, metadata and
    checksum on every opened container, whoever wrote it. \<open>Erf_Roundtrip\<close>: the library on every
    \<open>container_image\<close>. \<open>Erf_Handles\<close>: the allocations of opening and closing on an explicit heap, and
    the handles of a program as a state machine. \<open>Erf_Lookup\<close>: \<open>erf_lookup.c\<close> as a state machine over
    the linked section.
  \<^item> \<open>Elf_Writer\<close>: \<open>elf_writer.c\<close>. \<open>Elf_Layout\<close>: the specification \<open>elf_image\<close> of the object file.
    \<open>Elfrc_Main\<close>: \<open>src/elfrc/main.c\<close>. \<open>Elfresdump\<close>, \<open>Dump_Roundtrip\<close>: the dump tool, and the tool on the
    object files of the compiler. \<open>Pipeline\<close>: lemmas on the whole compiler.
  \<^item> This theory: properties that span the programs.

  \<^bold>\<open>Bounds.\<close> The statements about compiled containers assume \<open>container_fits\<close>: directory, names, metadata
  and hash table below \<open>2^32\<close> bytes, as the 32-bit name offsets of the format need (so fewer than \<open>2^25\<close>
  resources, which keeps \<open>next_pow2\<close> inside its range), and at most \<open>2^62\<close> bytes with the data, so that the
  buffer's doubling ends; \<open>data_size ds \<le> 2^60\<close> for the object file leaves room for the ELF sections. The id
  pass assumes fewer than \<open>2^32\<close> resources. No fuel is used: \<open>byte_buf_grow\<close>, \<open>next_pow2_loop\<close>, \<open>probe_free\<close>
  and \<open>skip_ids\<close> are \<open>partial_function (option)\<close>, where not ending is \<open>None\<close>, and their ending is proved
  or characterised; the search loop of the reader is bounded by the bucket count, as in the code.

  \<^bold>\<open>Not modelled.\<close> libyaml itself, the text of the usage messages and of \<open>strerror\<close>, failing
  allocations (the code does not check them), the alignment of the container in memory, the memory the
  compiler's own short-lived structures release (\<open>elfrc_manifest_free\<close>, \<open>elfrc_container_free\<close> and
  \<open>byte_buf_free\<close> appear as what they leave behind), and threads: the last error is per thread and the
  header asks callers to serialise first use of the default container. Tests, the example and the build
  files are not part of the development.
\<close>

section \<open>Properties of the whole system\<close>





text \<open>
  C14. Ids identify resources: the parser gives every resource its own id, the compiler stores it,
  and on the opened container looking up the id of a resource finds that resource and no other; name
  and language together identify it as well.
\<close>

theorem erf_find_id_unique:
  assumes "elfrc_manifest_parse load is_reg path = Some (Inr m)" and "compiles fs m ns ds"
    and "i < length (mf_resources m)"
  shows "\<exists>c. compiled_and_opened fs m = Some c
    \<and> erf_find_id_in (Some c) (r_final_id (mf_resources m ! i)) e = (Some (c_resources c ! i), ERF_OK)
    \<and> resource_agrees (c_base c) (mf_resources m ! i) (ns ! i) (ds ! i) (c_resources c ! i)
    \<and> (\<forall>j < length (mf_resources m). resource_key (mf_resources m ! j) = resource_key (mf_resources m ! i)
        \<longrightarrow> j = i)"
proof -
  let ?rs = "mf_resources m"
  have "length ?rs < 2 ^ 25"
    using assms(2) by (intro fits_count [of _ ns]) (simp add: compiles_def container_fits_def)
  then have "manifest_wf is_reg m" by (intro manifest_parse_success [OF assms(1)]) simp
  then have d: "distinct (map r_final_id ?rs)" "distinct (map resource_key ?rs)"
    by (simp_all add: manifest_wf_def)
  from compiled_image [OF assms(2)] obtain img sz h es tbl where
    run: "compiled_and_opened fs m = Some (opened img sz)"
    and image: "container_image img ?rs ns ds h es tbl" and n: "length ns = length ?rs" by metis
  have "first_index (r_final_id (?rs ! i)) (map r_final_id ?rs) = Some i"
    using first_index_distinct [OF d(1), of i] assms(3) by simp
  then have "erf_find_id_in (Some (opened img sz)) (r_final_id (?rs ! i)) e
      = (Some (c_resources (opened img sz) ! i), ERF_OK)"
    using image_find_id [OF image n] by (simp add: found_def)
  moreover have "\<forall>j < length ?rs. resource_key (?rs ! j) = resource_key (?rs ! i) \<longrightarrow> j = i"
    using d(2) assms(3) by (auto simp: distinct_conv_nth)
  moreover have "c_base (opened img sz) = img" by (simp add: opened_def Let_def)
  ultimately show ?thesis using run image_resource [OF image n assms(3), of sz] by simp
qed

theorem erf_find_id_unique_witness:
  "\<exists>c. compiled_and_opened sample_app_files sample_parsed = Some c
    \<and> erf_find_id_in (Some c) (r_final_id (mf_resources sample_parsed ! 2)) ERF_OK
        = (Some (c_resources c ! 2), ERF_OK)
    \<and> resource_agrees (c_base c) (mf_resources sample_parsed ! 2) ''text'' [] (c_resources c ! 2)"
proof -
  have "2 < length (mf_resources sample_parsed)" by (simp add: sample_parsed_def)
  from erf_find_id_unique [OF sample_load_parses sample_parsed_compiles this, of ERF_OK] show ?thesis by auto
qed

text \<open>
  C31. The compiler and the dump tool name types alike: the name that \<open>elfresdump\<close> lists for a
  standard type is one the manifest accepts, and it stands for that very type; a type outside the
  format's list is shown by a name that no manifest can use.
\<close>

theorem type_names_agree:
  "type_from_name (type_name i) = (if unat i < 15 then Some i else None) \<and> range type_code = {i. unat i < 15}"
proof (cases "unat i < 15")
  case True
  then obtain t where "i = type_code t" using type_code_range by blast
  moreover have "\<forall>t. type_from_name (type_name (type_code t)) = Some (type_code t)" by code_simp
  ultimately show ?thesis using True type_code_range by simp
next
  case False
  then have "type_name i = ''application-defined''" by (simp add: type_name_def)
  moreover have "type_from_name ''application-defined'' = None" by code_simp
  ultimately show ?thesis using False type_code_range by simp
qed

end
